theory Spec2Isabelle
  imports Complex_Main "HOL-Library.Log_Nat" "HOL-Library.Multiset"
begin

section \<open>The GameDetails page: wager intake and volume aggregation\<close>

text \<open>
  A shallow embedding of \<^verbatim>\<open>src/pages/GameDetails.tsx\<close>: the React component state is
  a record, every handler is a function from state to state, the answers of the store
  (the Supabase client) are inputs of the model, and the insert requests a handler issues
  are returned beside the new state.
\<close>

subsection \<open>JavaScript numbers\<close>

text \<open>
  A JavaScript number is an IEEE 754 binary64 value. The finite ones are carried as the
  rational they denote; every arithmetic result is rounded to the nearest binary64 value,
  ties to even, by \<open>round64\<close>. The two zeros are not told apart (no operation of the page
  depends on the sign of zero).
\<close>

datatype number = NaN | NInf | Fin rat | PInf

text \<open>\<open>ilog2 q\<close> is \<open>\<lfloor>log\<^sub>2 q\<rfloor>\<close> for \<open>0 < q\<close>, computed on integers.\<close>

definition ilog2 :: "rat \<Rightarrow> int" where
  "ilog2 q = (if 1 \<le> q then bitlen \<lfloor>q\<rfloor> - 1 else - bitlen (- \<lfloor>- (1 / q)\<rfloor> - 1))"

definition round_half_even :: "rat \<Rightarrow> int" where
  "round_half_even x =
     (let f = \<lfloor>x\<rfloor>; r = x - of_int f
      in if r < 1 / 2 then f else if 1 / 2 < r then f + 1 else if even f then f else f + 1)"

text \<open>
  The exponent of the binade of \<open>q\<close>, not below that of the subnormal numbers, and the
  53-bit significand of \<open>q\<close> after rounding.
\<close>

definition expo :: "rat \<Rightarrow> int" where
  "expo q = max (ilog2 q) (- 1022)"

definition mant :: "rat \<Rightarrow> int" where
  "mant q = round_half_even (q / 2 powi (expo q - 52))"

definition round_pos :: "rat \<Rightarrow> number" where
  "round_pos q =
     (if (2::rat) ^ 1024 \<le> of_int (mant q) * 2 powi (expo q - 52) then PInf
      else Fin (of_int (mant q) * 2 powi (expo q - 52)))"

fun neg :: "number \<Rightarrow> number" where
  "neg NaN = NaN"
| "neg NInf = PInf"
| "neg PInf = NInf"
| "neg (Fin q) = Fin (- q)"

definition round64 :: "rat \<Rightarrow> number" where
  "round64 q = (if q = 0 then Fin 0 else if 0 < q then round_pos q else neg (round_pos (- q)))"

text \<open>\<^verbatim>\<open>x + y\<close>, \<^verbatim>\<open>x - y\<close>, \<^verbatim>\<open>x < y\<close>, \<^verbatim>\<open>x <= y\<close>, \<^verbatim>\<open>x > y\<close> and \<^verbatim>\<open>isNaN(x)\<close> on numbers.\<close>

fun js_add :: "number \<Rightarrow> number \<Rightarrow> number" where
  "js_add NaN y = NaN"
| "js_add x NaN = NaN"
| "js_add PInf NInf = NaN"
| "js_add NInf PInf = NaN"
| "js_add PInf y = PInf"
| "js_add x PInf = PInf"
| "js_add NInf y = NInf"
| "js_add x NInf = NInf"
| "js_add (Fin a) (Fin b) = round64 (a + b)"

definition js_sub :: "number \<Rightarrow> number \<Rightarrow> number" where
  "js_sub x y = js_add x (neg y)"

fun js_less :: "number \<Rightarrow> number \<Rightarrow> bool" where
  "js_less NaN y = False"
| "js_less x NaN = False"
| "js_less x NInf = False"
| "js_less NInf y = True"
| "js_less PInf y = False"
| "js_less (Fin a) PInf = True"
| "js_less (Fin a) (Fin b) = (a < b)"

definition js_le :: "number \<Rightarrow> number \<Rightarrow> bool" where
  "js_le x y = (js_less x y \<or> (x = y \<and> x \<noteq> NaN))"

definition js_gt :: "number \<Rightarrow> number \<Rightarrow> bool" where
  "js_gt x y = js_less y x"

definition isNaN :: "number \<Rightarrow> bool" where
  "isNaN x = (x = NaN)"

subsection \<open>Strings: \<^verbatim>\<open>parseFloat\<close>, \<^verbatim>\<open>parseInt\<close>, \<^verbatim>\<open>toString\<close>\<close>

text \<open>
  A string is its list of code units; a \<^typ>\<open>char\<close> holds the code units below 256.
  Both parsers skip leading white space and read the longest prefix that is a literal,
  as ECMAScript prescribes; what follows the literal is ignored.
\<close>

definition is_ws :: "char \<Rightarrow> bool" where
  "is_ws c = (c \<in> set [CHR 0x09, CHR 0x0A, CHR 0x0B, CHR 0x0C, CHR 0x0D, CHR 0x20, CHR 0xA0])"

definition radix_digit :: "nat \<Rightarrow> char \<Rightarrow> nat option" where
  "radix_digit R c =
     (let n = of_char c :: nat;
          v = (if 48 \<le> n \<and> n \<le> 57 then Some (n - 48)
               else if 97 \<le> n \<and> n \<le> 102 then Some (n - 87)
               else if 65 \<le> n \<and> n \<le> 70 then Some (n - 55)
               else None)
      in case v of None \<Rightarrow> None | Some d \<Rightarrow> if d < R then Some d else None)"

definition is_digit :: "nat \<Rightarrow> char \<Rightarrow> bool" where
  "is_digit R c = (radix_digit R c \<noteq> None)"

fun digits_val :: "nat \<Rightarrow> nat \<Rightarrow> string \<Rightarrow> nat" where
  "digits_val R acc [] = acc"
| "digits_val R acc (c # cs) =
     digits_val R (acc * R + (case radix_digit R c of None \<Rightarrow> 0 | Some d \<Rightarrow> d)) cs"

text \<open>An optional sign: whether it is a minus, and the rest of the string.\<close>

fun strip_sign :: "string \<Rightarrow> bool \<times> string" where
  "strip_sign [] = (False, [])"
| "strip_sign (c # cs) =
     (if c = CHR ''-'' then (True, cs) else if c = CHR ''+'' then (False, cs) else (False, c # cs))"

text \<open>\<^verbatim>\<open>parseInt(s)\<close> without a radix: base 16 after \<^verbatim>\<open>0x\<close> or \<^verbatim>\<open>0X\<close>, base 10 otherwise.\<close>

definition parseInt :: "string \<Rightarrow> number" where
  "parseInt str =
     (let (minus, s1) = strip_sign (dropWhile is_ws str);
          hex = (take 2 s1 = ''0x'' \<or> take 2 s1 = ''0X'');
          R = (if hex then 16 else 10);
          s2 = (if hex then drop 2 s1 else s1);
          Z = takeWhile (is_digit R) s2
      in if Z = [] then NaN
         else round64 (of_int ((if minus then - 1 else 1) * int (digits_val R 0 Z))))"

text \<open>The value of an exponent part \<^verbatim>\<open>e\<close>\<open>\<plusminus>\<close>\<^verbatim>\<open>ddd\<close> at the head of a string; 0 if there is none.\<close>

fun exponent_part :: "string \<Rightarrow> int" where
  "exponent_part [] = 0"
| "exponent_part (c # cs) =
     (if c = CHR ''e'' \<or> c = CHR ''E''
      then (let (minus, ds) = strip_sign cs; Z = takeWhile (is_digit 10) ds
            in if Z = [] then 0
               else (if minus then - 1 else 1) * int (digits_val 10 0 Z))
      else 0)"

text \<open>The fraction digits after a decimal point at the head of a string, and what follows them.\<close>

fun fraction_part :: "string \<Rightarrow> string \<times> string" where
  "fraction_part [] = ([], [])"
| "fraction_part (c # cs) =
     (if c = CHR ''.'' then (takeWhile (is_digit 10) cs, dropWhile (is_digit 10) cs)
      else ([], c # cs))"

definition parseFloat :: "string \<Rightarrow> number" where
  "parseFloat str =
     (let (minus, s1) = strip_sign (dropWhile is_ws str)
      in if take 8 s1 = ''Infinity'' then (if minus then NInf else PInf)
         else
           (let ip = takeWhile (is_digit 10) s1;
                (fp, r2) = fraction_part (dropWhile (is_digit 10) s1)
            in if ip = [] \<and> fp = [] then NaN
               else
                 (let mv = of_nat (digits_val 10 0 (ip @ fp))
                             * 10 powi (exponent_part r2 - int (length fp))
                  in round64 (if minus then - mv else mv))))"

text \<open>\<^verbatim>\<open>n.toString()\<close> for a natural number \<open>n\<close>.\<close>

definition digit_char :: "nat \<Rightarrow> char" where
  "digit_char d = ''0123456789'' ! d"

function toString :: "nat \<Rightarrow> string" where
  "toString n =
     (if n < 10 then [digit_char n] else toString (n div 10) @ [digit_char (n mod 10)])"
  by pat_completeness auto
termination
  by (relation "measure (\<lambda>n. n)") auto

declare toString.simps [simp del]

subsection \<open>Data model\<close>

datatype 'a jsfield = Undefined | Null | Val 'a

text \<open>
  A property of a JavaScript object is absent (\<^verbatim>\<open>undefined\<close>), \<^verbatim>\<open>null\<close>, or a value;
  \<^verbatim>\<open>===\<close> on two such properties is equality of \<^typ>\<open>'a jsfield\<close>.
\<close>


record User =
  id_user :: string

text \<open>The columns of a \<^verbatim>\<open>games\<close> row that the handlers read.\<close>

record Game =
  id_game :: string
  status :: string
  type_game :: string
  teama :: "string jsfield"
  teamb :: "string jsfield"
  team :: "string jsfield"

text \<open>
  A row as the two bet queries select it (lines 79-89), and \<^verbatim>\<open>MatchBet\<close> (lines 11-24):
  the row with its \<^verbatim>\<open>type\<close> tag.
\<close>

record BetRow =
  id_bet :: string
  user_id :: string
  bet_amount :: "number jsfield"
  status_bet :: string
  created_at :: string
  team_bet :: "string jsfield"
  predicted_percentage :: "number jsfield"
  predicted_score :: "number jsfield"
  user_name :: string

datatype bet_type = Win | Score

record MatchBet = BetRow +
  type_bet :: bet_type

text \<open>\<^verbatim>\<open>{ ...b, type: t }\<close>\<close>

definition tag :: "bet_type \<Rightarrow> BetRow \<Rightarrow> MatchBet" where
  "tag t b =
     \<lparr>id_bet = id_bet b, user_id = user_id b, bet_amount = bet_amount b,
      status_bet = status_bet b, created_at = created_at b, team_bet = team_bet b,
      predicted_percentage = predicted_percentage b, predicted_score = predicted_score b,
      user_name = user_name b, type_bet = t\<rparr>"

text \<open>The eleven score brackets (lines 45-48).\<close>

definition scoreRanges :: "string list" where
  "scoreRanges =
     [''0 - 50'', ''51 - 80'', ''81 - 100'', ''101 - 120'', ''121 - 140'',
      ''141 - 160'', ''161 - 180'', ''181 - 200'', ''201 - 220'', ''221 - 240'', ''241+'']"

text \<open>
  The component: the route parameter, the authenticated user, and the state variables of
  lines 32-43.
\<close>

record Page =
  route_id :: "string option"
  user :: "User option"
  game :: "Game option"
  matchBets :: "MatchBet list"
  loading :: bool
  betsLoading :: bool
  betAmount :: string
  prediction :: string
  error :: string
  submitting :: bool
  userBalance :: number
  totalVolume :: number
  teamAVolume :: number
  teamBVolume :: number

subsection \<open>The store\<close>

text \<open>
  An awaited store call either fulfils with an object \<^verbatim>\<open>{ data, error }\<close> (lines 58 and 70
  read both properties) or rejects, which \<^verbatim>\<open>await\<close> turns into an exception.
\<close>

datatype 'a response = Fulfilled "'a jsfield" "string option" | Rejected

text \<open>The two insert requests of \<^verbatim>\<open>placeBet\<close> (lines 140-146 and 153-159).\<close>

datatype store_write =
  Insert_win_game_bets
    (w_user_id: string) (w_game_id: string) (w_team: string)
    (w_predicted_percentage: number) (w_bet_amount: number)
| Insert_score_prediction_bets
    (s_user_id: string) (s_game_id: string) (s_team: "string jsfield")
    (s_predicted_score: number) (s_bet_amount: number)

text \<open>What the store answers to the calls of one \<^verbatim>\<open>placeBet\<close>, in the order they are made.\<close>

record Responses =
  insert_response :: "unit response"
  win_bets_response :: "BetRow list response"
  score_bets_response :: "BetRow list response"
  balance_response :: "number jsfield response"

datatype 'a outcome = Returns 'a | Throws

subsection \<open>Assembling the bet list (lines 91-96)\<close>

text \<open>
  \<^verbatim>\<open>new Date(s).getTime()\<close> is a parameter \<open>getTime\<close> of the model: the time value in
  milliseconds, or \<open>None\<close> for an invalid date (\<^verbatim>\<open>NaN\<close>). ECMAScript leaves the parsing
  of all but one date format to the implementation.
\<close>

definition time_of :: "(string \<Rightarrow> int option) \<Rightarrow> string \<Rightarrow> number" where
  "time_of getTime s = (case getTime s of None \<Rightarrow> NaN | Some t \<Rightarrow> Fin (of_int t))"

text \<open>\<^verbatim>\<open>(a, b) => new Date(b.created_at).getTime() - new Date(a.created_at).getTime()\<close>\<close>

definition compare_bets :: "(string \<Rightarrow> int option) \<Rightarrow> MatchBet \<Rightarrow> MatchBet \<Rightarrow> number" where
  "compare_bets getTime a b =
     js_sub (time_of getTime (created_at b)) (time_of getTime (created_at a))"

text \<open>
  \<^verbatim>\<open>Array.prototype.sort\<close> with a comparator is stable: \<open>x\<close> moves behind \<open>y\<close> only when
  the comparator is positive on \<open>(x, y)\<close>; zero and \<^verbatim>\<open>NaN\<close> keep the order. (For a
  comparator that is not a consistent order ECMAScript leaves the result to the
  implementation; this is the order insertion gives.)
\<close>

fun insert_by :: "('a \<Rightarrow> 'a \<Rightarrow> number) \<Rightarrow> 'a \<Rightarrow> 'a list \<Rightarrow> 'a list" where
  "insert_by cmp x [] = [x]"
| "insert_by cmp x (y # ys) =
     (if js_less (Fin 0) (cmp x y) then y # insert_by cmp x ys else x # y # ys)"

definition js_sort :: "('a \<Rightarrow> 'a \<Rightarrow> number) \<Rightarrow> 'a list \<Rightarrow> 'a list" where
  "js_sort cmp xs = foldr (insert_by cmp) xs []"

text \<open>\<^verbatim>\<open>data || []\<close>\<close>

fun or_empty :: "'a list jsfield \<Rightarrow> 'a list" where
  "or_empty (Val xs) = xs"
| "or_empty Null = []"
| "or_empty Undefined = []"

definition allBets ::
  "(string \<Rightarrow> int option) \<Rightarrow> BetRow list jsfield \<Rightarrow> BetRow list jsfield \<Rightarrow> MatchBet list" where
  "allBets getTime winBets scoreBets =
     js_sort (compare_bets getTime)
       (map (tag Win) (or_empty winBets) @ map (tag Score) (or_empty scoreBets))"

subsection \<open>Volume cards (lines 99-101)\<close>

text \<open>\<^verbatim>\<open>Number(b.bet_amount || 0)\<close>: an absent, \<^verbatim>\<open>null\<close>, zero or \<^verbatim>\<open>NaN\<close> amount is falsy.\<close>

definition amount_of :: "MatchBet \<Rightarrow> number" where
  "amount_of b =
     (case bet_amount b of
        Val n \<Rightarrow> if n = NaN \<or> n = Fin 0 then Fin 0 else n
      | Null \<Rightarrow> Fin 0
      | Undefined \<Rightarrow> Fin 0)"

text \<open>\<^verbatim>\<open>bets.reduce((sum, b) => sum + Number(b.bet_amount || 0), 0)\<close>\<close>

definition volume :: "MatchBet list \<Rightarrow> number" where
  "volume bets = foldl (\<lambda>sum b. js_add sum (amount_of b)) (Fin 0) bets"

record Volumes =
  total :: number
  teamA :: number
  teamB :: number

definition volume_cards :: "MatchBet list \<Rightarrow> string jsfield \<Rightarrow> string jsfield \<Rightarrow> Volumes" where
  "volume_cards bets label_a label_b =
     \<lparr>total = volume bets,
      teamA = volume (filter (\<lambda>b. team_bet b = label_a) bets),
      teamB = volume (filter (\<lambda>b. team_bet b = label_b) bets)\<rparr>"

text \<open>
  The amounts of the wagers whose side is neither label, summed as the cards are: the
  third summand of the additivity property (no variable of the page holds it).
\<close>

definition neither_volume :: "MatchBet list \<Rightarrow> string jsfield \<Rightarrow> string jsfield \<Rightarrow> number" where
  "neither_volume bets label_a label_b =
     volume (filter (\<lambda>b. team_bet b \<noteq> label_a \<and> team_bet b \<noteq> label_b) bets)"

text \<open>\<^verbatim>\<open>game?.teama\<close>\<close>

definition optional :: "Game option \<Rightarrow> (Game \<Rightarrow> 'a jsfield) \<Rightarrow> 'a jsfield" where
  "optional g f = (case g of None \<Rightarrow> Undefined | Some x \<Rightarrow> f x)"

subsection \<open>Fetching (lines 56-110)\<close>

text \<open>
  A handler reads \<^verbatim>\<open>id\<close>, \<^verbatim>\<open>game\<close> and \<^verbatim>\<open>user\<close> as they were in the render that created it;
  they are arguments of the model. \<^verbatim>\<open>fetchMatchBets\<close> catches every exception;
  \<^verbatim>\<open>fetchUserBalance\<close> has no \<^verbatim>\<open>try\<close>, a rejected query leaves it by an exception.
\<close>

definition fetchMatchBets ::
  "(string \<Rightarrow> int option) \<Rightarrow> string option \<Rightarrow> Game option \<Rightarrow>
   BetRow list response \<Rightarrow> BetRow list response \<Rightarrow> Page \<Rightarrow> Page" where
  "fetchMatchBets getTime cid cgame rw rs s =
     (if cid = None \<or> cid = Some [] then s
      else
        (let s1 = s\<lparr>betsLoading := True\<rparr>
         in case rw of
              Rejected \<Rightarrow> s1\<lparr>betsLoading := False\<rparr>
            | Fulfilled winBets ew \<Rightarrow>
                (case rs of
                   Rejected \<Rightarrow> s1\<lparr>betsLoading := False\<rparr>
                 | Fulfilled scoreBets es \<Rightarrow>
                     (let bets = allBets getTime winBets scoreBets;
                          v = volume_cards bets (optional cgame teama) (optional cgame teamb)
                      in s1\<lparr>matchBets := bets, totalVolume := total v,
                            teamAVolume := teamA v, teamBVolume := teamB v,
                            betsLoading := False\<rparr>))))"

text \<open>
  \<^verbatim>\<open>fetchGame\<close> (lines 56-66): an error in the answer is thrown and, like a rejected query,
  caught and logged.
\<close>

definition fetchGame :: "Game response \<Rightarrow> Page \<Rightarrow> Page" where
  "fetchGame r s =
     (case r of
        Rejected \<Rightarrow> s\<lparr>loading := False\<rparr>
      | Fulfilled data err \<Rightarrow>
          (if err \<noteq> None then s\<lparr>loading := False\<rparr>
           else s\<lparr>game := (case data of Val g \<Rightarrow> Some g | Null \<Rightarrow> None | Undefined \<Rightarrow> None),
                  loading := False\<rparr>))"

text \<open>\<^verbatim>\<open>Number(x)\<close> on a number or \<^verbatim>\<open>null\<close>.\<close>

fun Number_of :: "number jsfield \<Rightarrow> number" where
  "Number_of (Val n) = n"
| "Number_of Null = Fin 0"
| "Number_of Undefined = NaN"

definition fetchUserBalance :: "User option \<Rightarrow> number jsfield response \<Rightarrow> Page \<Rightarrow> Page outcome" where
  "fetchUserBalance cuser r s =
     (if cuser = None then Returns s
      else case r of
             Rejected \<Rightarrow> Throws
           | Fulfilled data err \<Rightarrow>
               (let balance = (case data of Val b \<Rightarrow> b | Null \<Rightarrow> Undefined | Undefined \<Rightarrow> Undefined)
                in if err = None \<and> balance \<noteq> Undefined
                   then Returns (s\<lparr>userBalance := Number_of balance\<rparr>)
                   else Returns s))"

subsection \<open>\<^verbatim>\<open>placeBet\<close> (lines 112-172)\<close>

text \<open>
  \<^verbatim>\<open>placeBet\<close> runs without interruption up to its first \<^verbatim>\<open>await\<close>, the insert: it either
  returns (the \<^verbatim>\<open>finally\<close> block has reset \<^verbatim>\<open>submitting\<close>), or it has issued an insert request
  and is suspended.
\<close>

datatype sync_result = Done Page | Awaiting Page store_write

text \<open>\<^verbatim>\<open>setError(msg); return;\<close> inside the \<^verbatim>\<open>try\<close>, followed by the \<^verbatim>\<open>finally\<close> block.\<close>

definition rejected :: "Page \<Rightarrow> string \<Rightarrow> sync_result" where
  "rejected s msg = Done (s\<lparr>error := msg, submitting := False\<rparr>)"

definition placeBet_sync :: "Page \<Rightarrow> sync_result" where
  "placeBet_sync s =
     (case (user s, game s) of
        (Some u, Some g) \<Rightarrow>
          (let s1 = s\<lparr>error := '''', submitting := True\<rparr>
           in if status g \<noteq> ''live'' then rejected s1 ''This game is not live.''
              else
                (let amount = parseFloat (betAmount s)
                 in if isNaN amount \<or> js_le amount (Fin 0) then rejected s1 ''Enter a valid amount''
                    else if js_gt amount (userBalance s) then rejected s1 ''Insufficient balance''
                    else if type_game g = ''win'' then
                      (if prediction s = '''' then rejected s1 ''Select a team''
                       else Awaiting s1
                              (Insert_win_game_bets (id_user u) (id_game g) (prediction s)
                                 (Fin 50) amount))
                    else
                      (let predictedScore = parseInt (prediction s)
                       in if isNaN predictedScore then rejected s1 ''Select a valid score range''
                          else Awaiting s1
                                 (Insert_score_prediction_bets (id_user u) (id_game g) (team g)
                                    predictedScore amount))))
      | _ \<Rightarrow> Done s)"

text \<open>
  The rest of \<^verbatim>\<open>placeBet\<close>, once the insert has settled (lines 162-171). What the insert
  fulfils with is not looked at. \<open>s\<close> is the state at that moment.
\<close>

definition placeBet_resume ::
  "(string \<Rightarrow> int option) \<Rightarrow> string option \<Rightarrow> Game option \<Rightarrow> User option \<Rightarrow>
   Responses \<Rightarrow> Page \<Rightarrow> Page" where
  "placeBet_resume getTime cid cgame cuser r s =
     (case insert_response r of
        Rejected \<Rightarrow> s\<lparr>error := ''Failed to place bet.'', submitting := False\<rparr>
      | Fulfilled data err \<Rightarrow>
          (let s2 = fetchMatchBets getTime cid cgame (win_bets_response r) (score_bets_response r) s
           in case fetchUserBalance cuser (balance_response r) s2 of
                Throws \<Rightarrow> s2\<lparr>error := ''Failed to place bet.'', submitting := False\<rparr>
              | Returns s3 \<Rightarrow> s3\<lparr>betAmount := '''', prediction := '''', submitting := False\<rparr>))"

text \<open>One whole call of \<^verbatim>\<open>placeBet\<close>: the final state and the insert requests it issued.\<close>

definition placeBet ::
  "(string \<Rightarrow> int option) \<Rightarrow> Page \<Rightarrow> Responses \<Rightarrow> Page \<times> store_write list" where
  "placeBet getTime s r =
     (case placeBet_sync s of
        Done s' \<Rightarrow> (s', [])
      | Awaiting s' w \<Rightarrow> (placeBet_resume getTime (route_id s) (game s) (user s) r s', [w]))"

subsection \<open>The form (lines 240-300)\<close>

text \<open>
  The score buttons, the team select and the amount input set the draft. The submit
  button carries \<^verbatim>\<open>disabled={submitting}\<close> (line 296): while the flag is set the form
  delivers no submit event to \<^verbatim>\<open>placeBet\<close>.
\<close>

definition range_button :: "nat \<Rightarrow> Page \<Rightarrow> Page" where
  "range_button idx s = s\<lparr>prediction := toString (idx + 1)\<rparr>"

definition submit_disabled :: "Page \<Rightarrow> bool" where
  "submit_disabled s = submitting s"

text \<open>
  A session: the page, the calls of \<^verbatim>\<open>placeBet\<close> that are suspended at their insert (with
  what each captured), and the insert requests issued so far.
\<close>

record Captured =
  c_id :: "string option"
  c_game :: "Game option"
  c_user :: "User option"

record Session =
  page :: Page
  in_flight :: "Captured list"
  store :: "store_write list"

datatype event =
  Submit
| Settle Responses
| SetBetAmount string
| SetPrediction string
| ClickRange nat
| GameFetched "Game response"
| BalanceFetched "User option" "number jsfield response"
| BetsFetched "string option" "Game option" "BetRow list response" "BetRow list response"

text \<open>
  One event: a submit, the store settling the oldest suspended \<^verbatim>\<open>placeBet\<close>, an edit of
  the draft, or one of the fetches of the effect (lines 50-54) completing, with what it
  captured. A fetch of the balance that throws is an unhandled rejection: nothing changes.
\<close>

definition step :: "(string \<Rightarrow> int option) \<Rightarrow> Session \<Rightarrow> event \<Rightarrow> Session" where
  "step getTime c ev =
     (case ev of
        Submit \<Rightarrow>
          (if submit_disabled (page c) then c
           else case placeBet_sync (page c) of
                  Done s' \<Rightarrow> c\<lparr>page := s'\<rparr>
                | Awaiting s' w \<Rightarrow>
                    c\<lparr>page := s',
                      in_flight := in_flight c @
                        [\<lparr>c_id = route_id (page c), c_game = game (page c), c_user = user (page c)\<rparr>],
                      store := store c @ [w]\<rparr>)
      | Settle r \<Rightarrow>
          (case in_flight c of
             [] \<Rightarrow> c
           | k # ks \<Rightarrow>
               c\<lparr>page := placeBet_resume getTime (c_id k) (c_game k) (c_user k) r (page c),
                 in_flight := ks\<rparr>)
      | SetBetAmount v \<Rightarrow> c\<lparr>page := (page c)\<lparr>betAmount := v\<rparr>\<rparr>
      | SetPrediction v \<Rightarrow> c\<lparr>page := (page c)\<lparr>prediction := v\<rparr>\<rparr>
      | ClickRange idx \<Rightarrow>
          (if idx < length scoreRanges then c\<lparr>page := range_button idx (page c)\<rparr> else c)
      | GameFetched r \<Rightarrow> c\<lparr>page := fetchGame r (page c)\<rparr>
      | BalanceFetched cuser r \<Rightarrow>
          (case fetchUserBalance cuser r (page c) of
             Returns s' \<Rightarrow> c\<lparr>page := s'\<rparr>
           | Throws \<Rightarrow> c)
      | BetsFetched cid cgame rw rs \<Rightarrow>
          c\<lparr>page := fetchMatchBets getTime cid cgame rw rs (page c)\<rparr>)"

definition run :: "(string \<Rightarrow> int option) \<Rightarrow> Session \<Rightarrow> event list \<Rightarrow> Session" where
  "run getTime c evs = foldl (step getTime) c evs"

text \<open>
  The flag and the suspended calls agree: either nothing is in flight and the flag is
  clear, or exactly one call is in flight and the flag is set.
\<close>

definition consistent :: "Session \<Rightarrow> bool" where
  "consistent c =
     ((in_flight c = [] \<and> \<not> submitting (page c)) \<or>
      (length (in_flight c) = 1 \<and> submitting (page c)))"

subsection \<open>Auxiliary notions and scenarios\<close>

text \<open>A number that is a binary64 value: rounding does not change it.\<close>

definition representable :: "number \<Rightarrow> bool" where
  "representable x = (case x of Fin q \<Rightarrow> round64 q = Fin q | _ \<Rightarrow> True)"

text \<open>
  The games, drafts and store answers of the scenarios: a live win-type game
  \<open>Lions\<close> against \<open>Tigers\<close>, a live score-type game, a signed-in user with a draft, and
  a store that accepts everything and reports a balance of 70.
\<close>

definition G1 :: Game where
  "G1 = \<lparr>id_game = ''G1'', status = ''live'', type_game = ''win'',
         teama = Val ''Lions'', teamb = Val ''Tigers'', team = Null\<rparr>"

definition G2 :: Game where
  "G2 = \<lparr>id_game = ''G2'', status = ''live'', type_game = ''score'',
         teama = Null, teamb = Null, team = Val ''Lions''\<rparr>"

definition draft :: "Game \<Rightarrow> string \<Rightarrow> string \<Rightarrow> number \<Rightarrow> Page" where
  "draft g amount pred balance =
     \<lparr>route_id = Some (id_game g), user = Some \<lparr>id_user = ''U1''\<rparr>, game = Some g,
      matchBets = [], loading = False, betsLoading = False,
      betAmount = amount, prediction = pred, error = '''', submitting = False,
      userBalance = balance, totalVolume = Fin 0, teamAVolume = Fin 0, teamBVolume = Fin 0\<rparr>"

definition row :: "string \<Rightarrow> string \<Rightarrow> string jsfield \<Rightarrow> number jsfield \<Rightarrow> BetRow" where
  "row i t side amount =
     \<lparr>id_bet = i, user_id = ''U1'', bet_amount = amount, status_bet = ''pending'',
      created_at = t, team_bet = side, predicted_percentage = Undefined,
      predicted_score = Undefined, user_name = ''Asha''\<rparr>"

definition store_ok :: Responses where
  "store_ok =
     \<lparr>insert_response = Fulfilled Null None,
      win_bets_response = Fulfilled (Val []) None,
      score_bets_response = Fulfilled (Val []) None,
      balance_response = Fulfilled (Val (Val (Fin 70))) None\<rparr>"

text \<open>A table of \<^verbatim>\<open>new Date(s).getTime()\<close> for three timestamps.\<close>

definition clock :: "string \<Rightarrow> int option" where
  "clock s =
     (if s = ''2024-05-01T10:00:00Z'' then Some 1714557600000
      else if s = ''2024-05-01T11:00:00Z'' then Some 1714561200000
      else if s = ''2024-05-01T12:00:00Z'' then Some 1714564800000
      else None)"

text \<open>Three wagers: 10 on \<open>Lions\<close>, 20 on \<open>Tigers\<close>, and a score wager of 5 on \<open>Bears\<close>.\<close>

definition lions_bet :: BetRow where
  "lions_bet = row ''b1'' ''2024-05-01T10:00:00Z'' (Val ''Lions'') (Val (Fin 10))"

definition tigers_bet :: BetRow where
  "tigers_bet = row ''b2'' ''2024-05-01T12:00:00Z'' (Val ''Tigers'') (Val (Fin 20))"

definition bears_bet :: BetRow where
  "bears_bet = row ''b3'' ''2024-05-01T11:00:00Z'' (Val ''Bears'') (Val (Fin 5))"

definition session0 :: Session where
  "session0 = \<lparr>page = draft G1 ''30'' ''Lions'' (Fin 100), in_flight = [], store = []\<rparr>"

section \<open>Properties of the numbers\<close>

lemma bitlen_numeral_simps [simp]:
  "bitlen 1 = 1"
  "bitlen (numeral (Num.Bit0 n)) = bitlen (numeral n) + 1"
  "bitlen (numeral (Num.Bit1 n)) = bitlen (numeral n) + 1"
  "bitlen (numeral Num.One) = 1"
  by (subst compute_bitlen; simp)+

lemma floor_rat_numeral_div [simp]:
  "\<lfloor>numeral a / numeral b :: rat\<rfloor> = numeral a div numeral b"
  by (metis floor_divide_of_int_eq of_int_numeral)

lemma floor_rat_minus_numeral_div [simp]:
  "\<lfloor>- (numeral a / numeral b) :: rat\<rfloor> = - numeral a div numeral b"
  by (metis divide_minus_left floor_divide_of_int_eq of_int_neg_numeral of_int_numeral)

lemma pow2_less_iff: "(2::rat) powi m < 2 powi n \<longleftrightarrow> m < n"
proof
  assume less: "(2::rat) powi m < 2 powi n"
  show "m < n"
  proof (rule ccontr)
    assume "\<not> m < n"
    then have "(2::rat) powi n \<le> 2 powi m" by (intro power_int_increasing) auto
    with less show False by simp
  qed
next
  assume "m < n"
  then show "(2::rat) powi m < 2 powi n" by (intro power_int_strict_increasing) auto
qed

lemma pow2_le_iff: "(2::rat) powi m \<le> 2 powi n \<longleftrightarrow> m \<le> n"
  using pow2_less_iff[of n m] by (auto simp: not_less[symmetric])

lemma pow2_shift: "(2::rat) ^ n * 2 powi (e - 52) = 2 powi (e + int n - 52)"
proof -
  have "(2::rat) ^ n * 2 powi (e - 52) = 2 powi (int n) * 2 powi (e - 52)" by simp
  also have "\<dots> = 2 powi (int n + (e - 52))" by (rule power_int_add[symmetric]) simp
  finally show ?thesis by (simp add: algebra_simps)
qed

lemma bitlen_lower_rat:
  assumes "0 < n"
  shows "(2::rat) powi (bitlen n - 1) \<le> of_int n"
proof -
  from assms have b: "1 \<le> bitlen n" by (auto simp: bitlen_alt_def)
  from bitlen_bounds[OF assms] have "2 ^ nat (bitlen n - 1) \<le> n" by auto
  then have "(of_int (2 ^ nat (bitlen n - 1))::rat) \<le> of_int n" by (simp only: of_int_le_iff)
  then show ?thesis using b by (simp add: power_int_def)
qed

lemma bitlen_upper_rat:
  assumes "0 < n"
  shows "(of_int n :: rat) + 1 \<le> 2 powi (bitlen n)"
proof -
  have "n + 1 \<le> 2 ^ nat (bitlen n)" using bitlen_bounds[OF assms] by simp
  then have "(of_int (n + 1)::rat) \<le> of_int (2 ^ nat (bitlen n))" by (simp only: of_int_le_iff)
  then show ?thesis using bitlen_nonneg[of n] by (simp add: power_int_def)
qed

lemma ilog2_lower:
  assumes "0 < q"
  shows "2 powi ilog2 q \<le> q"
proof (cases "1 \<le> q")
  case True
  then have n: "0 < \<lfloor>q\<rfloor>" by simp
  have "2 powi (bitlen \<lfloor>q\<rfloor> - 1) \<le> (of_int \<lfloor>q\<rfloor>::rat)" by (rule bitlen_lower_rat[OF n])
  also have "\<dots> \<le> q" by simp
  finally show ?thesis using True by (simp add: ilog2_def)
next
  case False
  define c where "c = - \<lfloor>- (1 / q)\<rfloor>"
  have c: "c = \<lceil>1 / q\<rceil>" by (simp add: c_def ceiling_def)
  have "1 < 1 / q" using assms False by simp
  then have "2 \<le> c" unfolding c by linarith
  then have n: "0 < c - 1" by simp
  have "1 / q \<le> of_int c" unfolding c by simp
  moreover have "(of_int c::rat) \<le> 2 powi (bitlen (c - 1))"
    using bitlen_upper_rat[OF n] by simp
  ultimately have "1 / q \<le> 2 powi (bitlen (c - 1))" by simp
  moreover have "(0::rat) < 2 powi (bitlen (c - 1))" by simp
  ultimately have "1 / 2 powi (bitlen (c - 1)) \<le> q" using assms
    by (simp add: field_simps)
  then show ?thesis using False by (simp add: ilog2_def c_def power_int_minus field_simps)
qed

lemma ilog2_upper:
  assumes "0 < q"
  shows "q < 2 powi (ilog2 q + 1)"
proof (cases "1 \<le> q")
  case True
  then have n: "0 < \<lfloor>q\<rfloor>" by simp
  have "q < of_int \<lfloor>q\<rfloor> + 1" by linarith
  also have "\<dots> \<le> 2 powi (bitlen \<lfloor>q\<rfloor>)" by (rule bitlen_upper_rat[OF n])
  finally show ?thesis using True by (simp add: ilog2_def)
next
  case False
  define c where "c = - \<lfloor>- (1 / q)\<rfloor>"
  have c: "c = \<lceil>1 / q\<rceil>" by (simp add: c_def ceiling_def)
  have "1 < 1 / q" using assms False by simp
  then have "2 \<le> c" unfolding c by linarith
  then have n: "0 < c - 1" by simp
  have "2 powi (bitlen (c - 1) - 1) \<le> (of_int (c - 1)::rat)" by (rule bitlen_lower_rat[OF n])
  also have "\<dots> < 1 / q" unfolding c by linarith
  finally have "2 powi (bitlen (c - 1) - 1) < 1 / q" .
  moreover have "(0::rat) < 2 powi (bitlen (c - 1) - 1)" by simp
  ultimately have "q < 1 / 2 powi (bitlen (c - 1) - 1)" using assms
    by (simp add: field_simps)
  then show ?thesis
    using False by (simp add: ilog2_def c_def power_int_minus field_simps power_int_diff)
qed

lemma ilog2_unique:
  assumes "0 < q" "2 powi k \<le> q" "q < 2 powi (k + 1)"
  shows "ilog2 q = k"
proof -
  have "2 powi ilog2 q < (2::rat) powi (k + 1)"
    using ilog2_lower[OF assms(1)] assms(3) by simp
  then have 1: "ilog2 q < k + 1" by (simp add: pow2_less_iff)
  have "2 powi k < (2::rat) powi (ilog2 q + 1)"
    using ilog2_upper[OF assms(1)] assms(2) by simp
  then have 2: "k < ilog2 q + 1" by (simp add: pow2_less_iff)
  from 1 2 show ?thesis by simp
qed

lemma round_half_even_of_int [simp]: "round_half_even (of_int m) = m"
  by (simp add: round_half_even_def)

lemma round_half_even_le: "x \<le> of_int N \<Longrightarrow> round_half_even x \<le> N"
  by (auto simp: round_half_even_def Let_def) linarith+

lemma round_half_even_ge: "of_int N \<le> x \<Longrightarrow> N \<le> round_half_even x"
  by (auto simp: round_half_even_def Let_def) linarith+

lemma expo_ge: "- 1022 \<le> expo q"
  by (simp add: expo_def)

lemma expo_upper:
  assumes "0 < q"
  shows "q < 2 powi (expo q + 1)"
proof -
  have "q < 2 powi (ilog2 q + 1)" by (rule ilog2_upper[OF assms])
  also have "\<dots> \<le> 2 powi (expo q + 1)" unfolding pow2_le_iff by (simp add: expo_def)
  finally show ?thesis .
qed

lemma expo_lower:
  assumes "0 < q" "- 1022 \<le> ilog2 q"
  shows "2 powi expo q \<le> q"
  using ilog2_lower[OF assms(1)] assms(2) by (simp add: expo_def max_def)

lemma mant_le:
  assumes "0 < q"
  shows "mant q \<le> 2 ^ 53"
proof -
  have "q / 2 powi (expo q - 52) < 2 powi (expo q + 1) / 2 powi (expo q - 52)"
    using expo_upper[OF assms] by (simp add: divide_strict_right_mono)
  also have "\<dots> = 2 powi (expo q + 1 - (expo q - 52))"
    by (rule power_int_diff[symmetric]) simp
  finally have "q / 2 powi (expo q - 52) \<le> of_int (2 ^ 53)" by simp
  then show ?thesis unfolding mant_def by (rule round_half_even_le)
qed

lemma mant_nonneg:
  assumes "0 < q"
  shows "0 \<le> mant q"
proof -
  have "of_int 0 \<le> q / 2 powi (expo q - 52)" using assms by simp
  then show ?thesis unfolding mant_def by (rule round_half_even_ge)
qed

lemma mant_ge:
  assumes "0 < q" "- 1022 \<le> ilog2 q"
  shows "2 ^ 52 \<le> mant q"
proof -
  have "2 powi expo q / 2 powi (expo q - 52) \<le> q / 2 powi (expo q - 52)"
    using expo_lower[OF assms] by (simp add: divide_right_mono)
  moreover have "2 powi expo q / 2 powi (expo q - 52) = (2::rat) powi (expo q - (expo q - 52))"
    by (rule power_int_diff[symmetric]) simp
  ultimately have "of_int (2 ^ 52) \<le> q / 2 powi (expo q - 52)" by simp
  then show ?thesis unfolding mant_def by (rule round_half_even_ge)
qed

text \<open>A number that is a multiple of the unit of its own binade is not changed by rounding.\<close>

lemma round_pos_exact:
  assumes "q = of_int m * 2 powi (expo q - 52)" "q < 2 ^ 1024"
  shows "round_pos q = Fin q"
proof -
  have "q / 2 powi (expo q - 52) = of_int m"
    using assms(1) by (metis nonzero_mult_div_cancel_right power_int_eq_0_iff zero_neq_numeral)
  then have "mant q = m" by (simp add: mant_def)
  then show ?thesis using assms by (simp add: round_pos_def)
qed

lemma expo_of_pos_int:
  assumes "1 \<le> n" "n \<le> 2 ^ 53"
  shows "0 \<le> expo (of_int n)" "expo (of_int n) \<le> 53"
    "expo (of_int n) = 53 \<Longrightarrow> n = 2 ^ 53"
proof -
  let ?q = "of_int n :: rat"
  have q: "0 < ?q" using assms by simp
  have "(1::rat) \<le> ?q" using assms by simp
  then have "2 powi 0 < (2::rat) powi (ilog2 ?q + 1)" using ilog2_upper[OF q] by simp
  then have lo: "0 \<le> ilog2 ?q" unfolding pow2_less_iff by simp
  have "?q \<le> 2 ^ 53" using assms(2) by (metis of_int_le_iff of_int_numeral of_int_power)
  then have "2 powi ilog2 ?q \<le> (2::rat) powi 53" using ilog2_lower[OF q] by simp
  then have hi: "ilog2 ?q \<le> 53" unfolding pow2_le_iff .
  show "0 \<le> expo ?q" "expo ?q \<le> 53" using lo hi by (simp_all add: expo_def)
  assume "expo ?q = 53"
  then have "ilog2 ?q = 53" using lo by (simp add: expo_def)
  then have "(2::rat) ^ 53 \<le> ?q" using ilog2_lower[OF q] by simp
  then have "(of_int (2 ^ 53) :: rat) \<le> of_int n" by simp
  then have "2 ^ 53 \<le> n" by (simp only: of_int_le_iff)
  then show "n = 2 ^ 53" using assms(2) by simp
qed

lemma round_pos_of_int:
  assumes "1 \<le> n" "n \<le> 2 ^ 53"
  shows "round_pos (of_int n) = Fin (of_int n)"
proof -
  let ?q = "of_int n :: rat"
  let ?e = "expo ?q"
  note e = expo_of_pos_int[OF assms]
  have lt: "?q < 2 ^ 1024"
  proof -
    have "n < 2 ^ 1024" using assms(2) by (rule le_less_trans) simp
    then have "(of_int n :: rat) < of_int (2 ^ 1024)" by (simp only: of_int_less_iff)
    then show ?thesis by simp
  qed
  show ?thesis
  proof (cases "?e = 53")
    case True
    then have "n = 2 ^ 53" by (rule e(3))
    then have "?q = of_int (2 ^ 52) * 2 powi (?e - 52)" using True by simp
    then show ?thesis using lt by (rule round_pos_exact)
  next
    case False
    then have le: "?e \<le> 52" using e(2) by simp
    have "(2::rat) powi (?e - 52) = 1 / 2 ^ nat (52 - ?e)"
      using le by (simp add: power_int_def field_simps)
    then have "?q = of_int (n * 2 ^ nat (52 - ?e)) * 2 powi (?e - 52)" by simp
    then show ?thesis using lt by (rule round_pos_exact)
  qed
qed

text \<open>Integers up to \<open>2\<^sup>5\<^sup>3\<close> in magnitude are binary64 values.\<close>

lemma round64_of_int:
  assumes "\<bar>n\<bar> \<le> 2 ^ 53"
  shows "round64 (of_int n) = Fin (of_int n)"
proof -
  consider "n = 0" | "1 \<le> n" | "n \<le> - 1" by linarith
  then show ?thesis
  proof cases
    case 1
    then show ?thesis by (simp add: round64_def)
  next
    case 2
    then show ?thesis using assms round_pos_of_int[of n] by (simp add: round64_def)
  next
    case 3
    then have "round_pos (of_int (- n)) = Fin (of_int (- n))"
      using assms by (intro round_pos_of_int) auto
    then show ?thesis using 3 by (simp add: round64_def)
  qed
qed

lemma round64_numeral [simp]:
  "numeral k \<le> (2::int) ^ 53 \<Longrightarrow> round64 (numeral k) = Fin (numeral k)"
  using round64_of_int[of "numeral k"] by simp

lemma round64_neg_numeral [simp]:
  "numeral k \<le> (2::int) ^ 53 \<Longrightarrow> round64 (- numeral k) = Fin (- numeral k)"
  using round64_of_int[of "- numeral k"] by simp

lemma round64_0 [simp]: "round64 0 = Fin 0"
  by (simp add: round64_def)

lemma round64_1 [simp]: "round64 1 = Fin 1"
  using round64_of_int[of 1] by simp

lemma round64_of_nat:
  assumes "n \<le> 2 ^ 53"
  shows "round64 (of_nat n) = Fin (of_nat n)"
proof -
  have "int n \<le> 2 ^ 53" using assms by (metis of_nat_le_iff of_nat_numeral of_nat_power)
  then show ?thesis using round64_of_int[of "int n"] by simp
qed

text \<open>Rounding a value that is already rounded changes nothing.\<close>

lemma round_pos_idem:
  assumes q: "0 < q" and r: "round_pos q = Fin r"
  shows "r = 0 \<or> round_pos r = Fin r"
proof -
  let ?e = "expo q" and ?m = "mant q"
  from r have rv: "r = of_int ?m * 2 powi (?e - 52)" and rlt: "r < 2 ^ 1024"
    by (auto simp: round_pos_def split: if_splits)
  show ?thesis
  proof (cases "?m = 0")
    case True
    then show ?thesis using rv by simp
  next
    case False
    then have mpos: "0 < ?m" using mant_nonneg[OF q] by simp
    then have rpos: "0 < r" using rv by simp
    have "expo r = ?e \<or> (?m = 2 ^ 53 \<and> expo r = ?e + 1)"
    proof (cases "?m = 2 ^ 53")
      case True
      then have "r = 2 ^ 53 * 2 powi (?e - 52)" using rv by simp
      also have "\<dots> = 2 powi (?e + 1)" by (simp only: pow2_shift) (simp add: algebra_simps)
      finally have req: "r = 2 powi (?e + 1)" .
      have "ilog2 r = ?e + 1"
        by (rule ilog2_unique[OF rpos]) (simp_all add: req pow2_less_iff)
      then show ?thesis using True expo_ge[of q] by (simp add: expo_def[of r])
    next
      case False
      then have "?m \<le> 2 ^ 53 - 1" using mant_le[OF q] by simp
      then have "(of_int ?m :: rat) \<le> of_int (2 ^ 53 - 1)" by (simp only: of_int_le_iff)
      then have "(of_int ?m :: rat) < 2 ^ 53" by simp
      then have "r < 2 ^ 53 * 2 powi (?e - 52)"
        unfolding rv by (intro mult_strict_right_mono) simp_all
      also have "\<dots> = 2 powi (?e + 1)" by (simp only: pow2_shift) (simp add: algebra_simps)
      finally have rup: "r < 2 powi (?e + 1)" .
      have "2 powi ilog2 r < (2::rat) powi (?e + 1)" using ilog2_lower[OF rpos] rup by simp
      then have le: "ilog2 r \<le> ?e" unfolding pow2_less_iff by simp
      show ?thesis
      proof (cases "- 1022 \<le> ilog2 q")
        case True
        have "(of_int (2 ^ 52) :: rat) \<le> of_int ?m"
          using mant_ge[OF q True] by (simp only: of_int_le_iff)
        then have "2 ^ 52 * 2 powi (?e - 52) \<le> r"
          unfolding rv by (intro mult_right_mono) simp_all
        moreover have "2 ^ 52 * 2 powi (?e - 52) = (2::rat) powi ?e"
          by (simp only: pow2_shift) (simp add: algebra_simps)
        ultimately have "2 powi ?e \<le> r" by simp
        then have "ilog2 r = ?e" using rup by (intro ilog2_unique[OF rpos])
        then show ?thesis using expo_ge[of q] by (simp add: expo_def[of r])
      next
        case False
        then have "?e = - 1022" by (simp add: expo_def)
        then show ?thesis using le by (simp add: expo_def[of r])
      qed
    qed
    then show ?thesis
    proof
      assume "expo r = ?e"
      then have "r = of_int ?m * 2 powi (expo r - 52)" using rv by simp
      then have "round_pos r = Fin r" using rlt by (rule round_pos_exact)
      then show ?thesis ..
    next
      assume a: "?m = 2 ^ 53 \<and> expo r = ?e + 1"
      then have "r = 2 ^ 53 * 2 powi (?e - 52)" using rv by simp
      also have "\<dots> = 2 ^ 52 * 2 powi (?e + 1 - 52)"
        by (simp only: pow2_shift) (simp add: algebra_simps)
      finally have "r = of_int (2 ^ 52) * 2 powi (expo r - 52)" using a by simp
      then have "round_pos r = Fin r" using rlt by (rule round_pos_exact)
      then show ?thesis ..
    qed
  qed
qed

lemma round_pos_nonneg:
  assumes "0 < q" "round_pos q = Fin r"
  shows "0 \<le> r"
  using assms mant_nonneg[OF assms(1)] by (auto simp: round_pos_def split: if_splits)

lemma round64_idem:
  assumes "round64 q = Fin r"
  shows "round64 r = Fin r"
proof -
  consider "q = 0" | "0 < q" | "q < 0" by linarith
  then show ?thesis
  proof cases
    case 1
    then show ?thesis using assms by (auto simp: round64_def)
  next
    case 2
    then have "round_pos q = Fin r" using assms by (simp add: round64_def)
    from round_pos_idem[OF 2 this] round_pos_nonneg[OF 2 this]
    show ?thesis by (auto simp: round64_def)
  next
    case 3
    then have n: "neg (round_pos (- q)) = Fin r" using assms by (simp add: round64_def)
    then have p: "round_pos (- q) = Fin (- r)" by (cases "round_pos (- q)") auto
    have q: "0 < - q" using 3 by simp
    from round_pos_idem[OF q p] round_pos_nonneg[OF q p]
    show ?thesis by (auto simp: round64_def)
  qed
qed

text \<open>A number of magnitude at least 1 keeps its sign when rounded.\<close>

lemma round_pos_of_ge1:
  assumes "1 \<le> q"
  shows "js_less (Fin 0) (round_pos q)"
proof -
  have q: "0 < q" using assms by simp
  have "2 powi 0 < (2::rat) powi (ilog2 q + 1)" using ilog2_upper[OF q] assms by simp
  then have "0 \<le> ilog2 q" unfolding pow2_less_iff by simp
  then have "2 ^ 52 \<le> mant q" by (intro mant_ge[OF q]) simp
  then have "0 < mant q" by (rule less_le_trans[rotated]) simp
  then have "(0::rat) < of_int (mant q) * 2 powi (expo q - 52)" by simp
  then show ?thesis by (auto simp: round_pos_def)
qed

lemma round64_int_pos_iff: "js_less (Fin 0) (round64 (of_int n)) \<longleftrightarrow> 0 < n"
proof -
  consider "n = 0" | "1 \<le> n" | "n \<le> - 1" by linarith
  then show ?thesis
  proof cases
    case 1
    then show ?thesis by simp
  next
    case 2
    then have "js_less (Fin 0) (round_pos (of_int n))" by (intro round_pos_of_ge1) simp
    then show ?thesis using 2 by (simp add: round64_def)
  next
    case 3
    then have "js_less (Fin 0) (round_pos (of_int (- n)))" by (intro round_pos_of_ge1) simp
    then have "\<not> js_less (Fin 0) (neg (round_pos (of_int (- n))))"
      by (cases "round_pos (of_int (- n))") auto
    then show ?thesis using 3 by (simp add: round64_def)
  qed
qed

lemmas parse_simps =
  parseFloat_def parseInt_def is_ws_def is_digit_def radix_digit_def Let_def

text \<open>Addition on binary64 values.\<close>

lemma js_add_representable: "representable (js_add x y)"
proof (cases x; cases y)
  fix a b assume "x = Fin a" "y = Fin b"
  then show ?thesis
    by (cases "round64 (a + b)") (auto simp: representable_def dest: round64_idem)
qed (simp_all add: representable_def)

lemma js_add_zero: "representable x \<Longrightarrow> js_add x (Fin 0) = x"
  by (cases x) (simp_all add: representable_def)

lemma js_add_of_nat:
  "a + b \<le> 2 ^ 53 \<Longrightarrow> js_add (Fin (of_nat a)) (Fin (of_nat b)) = Fin (of_nat (a + b))"
  using round64_of_nat[of "a + b"] by simp

section \<open>Volume cards\<close>

lemma created_at_tag [simp]: "created_at (tag t b) = created_at b"
  by (simp add: tag_def)

lemma team_bet_tag [simp]: "team_bet (tag t b) = team_bet b"
  by (simp add: tag_def)

lemma bet_amount_tag [simp]: "bet_amount (tag t b) = bet_amount b"
  by (simp add: tag_def)

lemma type_bet_tag [simp]: "type_bet (tag t b) = t"
  by (simp add: tag_def)

lemmas scenario_simps =
  lions_bet_def tigers_bet_def bears_bet_def row_def tag_def amount_of_def
  volume_cards_def neither_volume_def volume_def

lemma volume_snoc: "volume (bs @ [b]) = js_add (volume bs) (amount_of b)"
  by (simp add: volume_def)

lemma volume_representable: "representable (volume bs)"
proof (induction bs rule: rev_induct)
  case Nil
  show ?case by (simp add: volume_def representable_def)
next
  case (snoc b bs)
  show ?case by (simp only: volume_snoc js_add_representable)
qed

lemma volume_skip:
  assumes "amount_of b = Fin 0"
  shows "volume (bs @ b # cs) = volume (bs @ cs)"
proof -
  have "js_add (volume bs) (amount_of b) = volume bs"
    using assms js_add_zero[OF volume_representable] by simp
  then show ?thesis by (simp add: volume_def)
qed

lemma amount_of_missing:
  "bet_amount b = Undefined \<or> bet_amount b = Null \<Longrightarrow> amount_of b = Fin 0"
  by (auto simp: amount_of_def)

lemma volume_filter_skip:
  assumes "amount_of b = Fin 0"
  shows "volume (filter P (bs @ b # cs)) = volume (filter P (bs @ cs))"
  using volume_skip[OF assms, of "filter P bs" "filter P cs"] by simp

lemma foldl_amounts_nat:
  assumes "\<forall>b\<in>set bs. amount_of b = Fin (of_nat (k b))" "a + sum_list (map k bs) \<le> 2 ^ 53"
  shows "foldl (\<lambda>sum b. js_add sum (amount_of b)) (Fin (of_nat a)) bs
           = Fin (of_nat (a + sum_list (map k bs)))"
  using assms
proof (induction bs arbitrary: a)
  case Nil
  then show ?case by simp
next
  case (Cons b bs)
  have ab: "amount_of b = Fin (of_nat (k b))" using Cons.prems by simp
  have le: "a + k b \<le> 2 ^ 53" using Cons.prems by simp
  have "js_add (Fin (of_nat a)) (amount_of b) = Fin (of_nat (a + k b))"
    unfolding ab by (rule js_add_of_nat[OF le])
  moreover have "foldl (\<lambda>sum b. js_add sum (amount_of b)) (Fin (of_nat (a + k b))) bs
           = Fin (of_nat (a + k b + sum_list (map k bs)))"
    using Cons.prems by (intro Cons.IH) (simp_all add: add.assoc)
  ultimately show ?case by (simp add: add.assoc)
qed

lemma volume_nat:
  assumes "\<forall>b\<in>set bs. amount_of b = Fin (of_nat (k b))" "sum_list (map k bs) \<le> 2 ^ 53"
  shows "volume bs = Fin (of_nat (sum_list (map k bs)))"
  using foldl_amounts_nat[of bs k 0] assms by (simp add: volume_def)

lemma sum_list_sides:
  assumes "la \<noteq> lb"
  shows "sum_list (map (k::MatchBet \<Rightarrow> nat) bs) =
           sum_list (map k (filter (\<lambda>b. team_bet b = la) bs))
         + sum_list (map k (filter (\<lambda>b. team_bet b = lb) bs))
         + sum_list (map k (filter (\<lambda>b. team_bet b \<noteq> la \<and> team_bet b \<noteq> lb) bs))"
  using assms by (induction bs) auto

lemma volume_cards_additive_aux:
  assumes "la \<noteq> lb"
    and "\<forall>b\<in>set bets. amount_of b = Fin (of_nat (k b))"
    and "sum_list (map k bets) \<le> 2 ^ 53"
  shows "total (volume_cards bets la lb) =
           js_add (js_add (teamA (volume_cards bets la lb)) (teamB (volume_cards bets la lb)))
                  (neither_volume bets la lb)
         \<and> js_le (js_add (teamA (volume_cards bets la lb)) (teamB (volume_cards bets la lb)))
                 (total (volume_cards bets la lb))"
proof -
  let ?A = "filter (\<lambda>b. team_bet b = la) bets"
  let ?B = "filter (\<lambda>b. team_bet b = lb) bets"
  let ?N = "filter (\<lambda>b. team_bet b \<noteq> la \<and> team_bet b \<noteq> lb) bets"
  let ?s = "\<lambda>xs. sum_list (map k xs)"
  have split: "?s bets = ?s ?A + ?s ?B + ?s ?N" by (rule sum_list_sides[OF assms(1)])
  have T: "volume bets = Fin (of_nat (?s bets))" using assms(2,3) by (rule volume_nat)
  have A: "volume ?A = Fin (of_nat (?s ?A))"
    using assms(2,3) split by (intro volume_nat) auto
  have B: "volume ?B = Fin (of_nat (?s ?B))"
    using assms(2,3) split by (intro volume_nat) auto
  have N: "volume ?N = Fin (of_nat (?s ?N))"
    using assms(2,3) split by (intro volume_nat) auto
  have AB: "js_add (volume ?A) (volume ?B) = Fin (of_nat (?s ?A + ?s ?B))"
    unfolding A B using assms(3) split by (intro js_add_of_nat) simp
  have ABN: "js_add (Fin (of_nat (?s ?A + ?s ?B))) (volume ?N) = Fin (of_nat (?s bets))"
    unfolding N split using assms(3) split by (intro js_add_of_nat) simp
  have le: "js_le (Fin (of_nat (?s ?A + ?s ?B))) (Fin (of_nat (?s bets)))"
    unfolding split by (auto simp: js_le_def)
  show ?thesis
    using T AB ABN le by (simp add: volume_cards_def neither_volume_def)
qed

text \<open>
  C7. With two different side labels and whole, non-negative amounts (\<open>k b\<close> for the
  wager \<open>b\<close>) whose sum is at most \<open>2\<^sup>5\<^sup>3\<close>, so that every addition is exact, the total is
  the sum of the two sides and of the wagers on neither side, and is at least the sum of
  the two sides.
\<close>

theorem volume_cards_additive:
  assumes "la \<noteq> lb"
    and "\<forall>b\<in>set bets. amount_of b = Fin (of_nat (k b))"
    and "sum_list (map k bets) \<le> 2 ^ 53"
  shows "total (volume_cards bets la lb) =
           js_add (js_add (teamA (volume_cards bets la lb)) (teamB (volume_cards bets la lb)))
                  (neither_volume bets la lb)
         \<and> js_le (js_add (teamA (volume_cards bets la lb)) (teamB (volume_cards bets la lb)))
                 (total (volume_cards bets la lb))"
  using assms by (rule volume_cards_additive_aux)

theorem volume_cards_additive_witness:
  "Val ''Lions'' \<noteq> (Val ''Tigers'' :: string jsfield)
   \<and> amount_of (tag Win lions_bet) = Fin (of_nat 10)
   \<and> amount_of (tag Win tigers_bet) = Fin (of_nat 20)
   \<and> amount_of (tag Score bears_bet) = Fin (of_nat 5)
   \<and> (10::nat) + 20 + 5 \<le> 2 ^ 53
   \<and> total (volume_cards [tag Win lions_bet, tag Win tigers_bet, tag Score bears_bet]
              (Val ''Lions'') (Val ''Tigers'')) = Fin 35
   \<and> js_add (js_add (Fin 10) (Fin 20)) (Fin 5) = Fin 35
   \<and> js_le (js_add (Fin 10) (Fin 20)) (Fin 35)"
proof -
  let ?bets = "[tag Win lions_bet, tag Win tigers_bet, tag Score bears_bet]"
  let ?k = "\<lambda>b::MatchBet. if id_bet b = ''b1'' then 10 else if id_bet b = ''b2'' then 20 else (5::nat)"
  have l: "Val ''Lions'' \<noteq> (Val ''Tigers'' :: string jsfield)" by simp
  have n: "amount_of (tag Win lions_bet) = Fin (of_nat 10)"
    "amount_of (tag Win tigers_bet) = Fin (of_nat 20)"
    "amount_of (tag Score bears_bet) = Fin (of_nat 5)"
    by (simp_all add: scenario_simps)
  have a: "\<forall>b\<in>set ?bets. amount_of b = Fin (of_nat (?k b))" by (simp add: scenario_simps)
  have s: "sum_list (map ?k ?bets) \<le> 2 ^ 53" by (simp add: scenario_simps)
  have v: "teamA (volume_cards ?bets (Val ''Lions'') (Val ''Tigers'')) = Fin 10"
    "teamB (volume_cards ?bets (Val ''Lions'') (Val ''Tigers'')) = Fin 20"
    "neither_volume ?bets (Val ''Lions'') (Val ''Tigers'') = Fin 5"
    by (simp_all add: scenario_simps)
  have t: "js_add (js_add (Fin 10) (Fin 20)) (Fin 5) = Fin 35" by simp
  show ?thesis
    using l n t volume_cards_additive[OF l a s] unfolding v by (simp add: js_le_def)
qed

text \<open>
  With the same label on both sides one wager of 10 is counted in both side volumes:
  the total is 10, the two sides add up to 20.
\<close>

theorem volume_cards_equal_labels:
  "total (volume_cards [tag Win lions_bet] (Val ''Lions'') (Val ''Lions'')) = Fin 10
   \<and> js_add (js_add (teamA (volume_cards [tag Win lions_bet] (Val ''Lions'') (Val ''Lions'')))
                    (teamB (volume_cards [tag Win lions_bet] (Val ''Lions'') (Val ''Lions''))))
            (neither_volume [tag Win lions_bet] (Val ''Lions'') (Val ''Lions'')) = Fin 20
   \<and> \<not> js_le (js_add (teamA (volume_cards [tag Win lions_bet] (Val ''Lions'') (Val ''Lions'')))
                      (teamB (volume_cards [tag Win lions_bet] (Val ''Lions'') (Val ''Lions''))))
              (total (volume_cards [tag Win lions_bet] (Val ''Lions'') (Val ''Lions'')))"
  by (simp add: scenario_simps js_le_def)

text \<open>
  With fractional amounts the additions round: three wagers of 0.3 and 0.1 on \<open>Lions\<close>
  and 0.2 on \<open>Tigers\<close> give a total below the sum of the two sides.
\<close>

lemma volume_cards_rounding:
  "total (volume_cards
            [tag Win (row ''b1'' '''' (Val ''Lions'') (Val (parseFloat ''0.3''))),
             tag Win (row ''b2'' '''' (Val ''Tigers'') (Val (parseFloat ''0.2''))),
             tag Win (row ''b3'' '''' (Val ''Lions'') (Val (parseFloat ''0.1'')))]
            (Val ''Lions'') (Val ''Tigers''))
     = Fin (5404319552844595 / 9007199254740992)
   \<and> js_add (teamA (volume_cards
            [tag Win (row ''b1'' '''' (Val ''Lions'') (Val (parseFloat ''0.3''))),
             tag Win (row ''b2'' '''' (Val ''Tigers'') (Val (parseFloat ''0.2''))),
             tag Win (row ''b3'' '''' (Val ''Lions'') (Val (parseFloat ''0.1'')))]
            (Val ''Lions'') (Val ''Tigers'')))
          (teamB (volume_cards
            [tag Win (row ''b1'' '''' (Val ''Lions'') (Val (parseFloat ''0.3''))),
             tag Win (row ''b2'' '''' (Val ''Tigers'') (Val (parseFloat ''0.2''))),
             tag Win (row ''b3'' '''' (Val ''Lions'') (Val (parseFloat ''0.1'')))]
            (Val ''Lions'') (Val ''Tigers'')))
     = Fin (2702159776422298 / 4503599627370496)
   \<and> js_less (Fin (5404319552844595 / 9007199254740992)) (Fin (2702159776422298 / 4503599627370496))"
proof -
  have p: "parseFloat ''0.3'' = Fin (5404319552844595 / 18014398509481984)"
    "parseFloat ''0.2'' = Fin (3602879701896397 / 18014398509481984)"
    "parseFloat ''0.1'' = Fin (3602879701896397 / 36028797018963968)"
    by (simp_all add: parse_simps round64_def round_pos_def mant_def expo_def ilog2_def
        round_half_even_def)
  show ?thesis
    unfolding p
    by (simp add: volume_cards_def volume_def amount_of_def row_def tag_def
        round64_def round_pos_def mant_def expo_def ilog2_def round_half_even_def Let_def)
qed

text \<open>
  C8. The cards of the empty list are zero; a wager without an amount adds zero and
  can be left out; what \<^verbatim>\<open>fetchMatchBets\<close> stores is computed from the fetched rows and the
  two labels alone.
\<close>

theorem volume_cards_pure:
  "volume_cards [] la lb = \<lparr>total = Fin 0, teamA = Fin 0, teamB = Fin 0\<rparr>
   \<and> (bet_amount b = Undefined \<or> bet_amount b = Null \<longrightarrow>
        amount_of b = Fin 0
        \<and> volume_cards (bs @ b # cs) la lb = volume_cards (bs @ cs) la lb)
   \<and> (cid \<noteq> None \<and> cid \<noteq> Some [] \<longrightarrow>
        matchBets (fetchMatchBets getTime cid cgame (Fulfilled w ew) (Fulfilled sc es) s)
          = allBets getTime w sc
        \<and> \<lparr>total = totalVolume (fetchMatchBets getTime cid cgame (Fulfilled w ew) (Fulfilled sc es) s),
            teamA = teamAVolume (fetchMatchBets getTime cid cgame (Fulfilled w ew) (Fulfilled sc es) s),
            teamB = teamBVolume (fetchMatchBets getTime cid cgame (Fulfilled w ew) (Fulfilled sc es) s)\<rparr>
          = volume_cards (allBets getTime w sc) (optional cgame teama) (optional cgame teamb))"
proof (intro conjI impI)
  show "volume_cards [] la lb = \<lparr>total = Fin 0, teamA = Fin 0, teamB = Fin 0\<rparr>"
    by (simp add: volume_cards_def volume_def)
next
  assume "bet_amount b = Undefined \<or> bet_amount b = Null"
  then show z: "amount_of b = Fin 0" by (rule amount_of_missing)
  show "volume_cards (bs @ b # cs) la lb = volume_cards (bs @ cs) la lb"
    unfolding volume_cards_def
    by (simp only: volume_skip[OF z] volume_filter_skip[OF z])
next
  assume "cid \<noteq> None \<and> cid \<noteq> Some []"
  then show "matchBets (fetchMatchBets getTime cid cgame (Fulfilled w ew) (Fulfilled sc es) s)
          = allBets getTime w sc"
    by (auto simp: fetchMatchBets_def Let_def)
next
  assume "cid \<noteq> None \<and> cid \<noteq> Some []"
  then show "\<lparr>total = totalVolume (fetchMatchBets getTime cid cgame (Fulfilled w ew) (Fulfilled sc es) s),
            teamA = teamAVolume (fetchMatchBets getTime cid cgame (Fulfilled w ew) (Fulfilled sc es) s),
            teamB = teamBVolume (fetchMatchBets getTime cid cgame (Fulfilled w ew) (Fulfilled sc es) s)\<rparr>
          = volume_cards (allBets getTime w sc) (optional cgame teama) (optional cgame teamb)"
    by (auto simp: fetchMatchBets_def Let_def)
qed

theorem volume_cards_pure_witness:
  "bet_amount (tag Win (row ''b0'' ''2024-05-01T10:00:00Z'' (Val ''Lions'') Undefined)) = Undefined
   \<and> amount_of (tag Win (row ''b0'' ''2024-05-01T10:00:00Z'' (Val ''Lions'') Undefined)) = Fin 0
   \<and> volume_cards ([tag Win lions_bet]
         @ tag Win (row ''b0'' ''2024-05-01T10:00:00Z'' (Val ''Lions'') Undefined) # [tag Win tigers_bet])
         (Val ''Lions'') (Val ''Tigers'')
       = volume_cards ([tag Win lions_bet] @ [tag Win tigers_bet]) (Val ''Lions'') (Val ''Tigers'')
   \<and> Some ''G1'' \<noteq> None \<and> Some ''G1'' \<noteq> Some ''''
   \<and> \<lparr>total = totalVolume (fetchMatchBets clock (Some ''G1'') (Some G1)
                   (Fulfilled (Val [lions_bet]) None) (Fulfilled (Val [tigers_bet]) None)
                   (draft G1 ''30'' ''Lions'' (Fin 100))),
        teamA = teamAVolume (fetchMatchBets clock (Some ''G1'') (Some G1)
                   (Fulfilled (Val [lions_bet]) None) (Fulfilled (Val [tigers_bet]) None)
                   (draft G1 ''30'' ''Lions'' (Fin 100))),
        teamB = teamBVolume (fetchMatchBets clock (Some ''G1'') (Some G1)
                   (Fulfilled (Val [lions_bet]) None) (Fulfilled (Val [tigers_bet]) None)
                   (draft G1 ''30'' ''Lions'' (Fin 100)))\<rparr>
       = volume_cards (allBets clock (Val [lions_bet]) (Val [tigers_bet]))
           (optional (Some G1) teama) (optional (Some G1) teamb)"
proof -
  let ?b = "tag Win (row ''b0'' ''2024-05-01T10:00:00Z'' (Val ''Lions'') Undefined)"
  have u: "bet_amount ?b = Undefined" by (simp add: row_def)
  have c: "Some ''G1'' \<noteq> None \<and> Some ''G1'' \<noteq> Some ''''" by simp
  show ?thesis
    using u c
      volume_cards_pure[of "Val ''Lions''" "Val ''Tigers''" ?b "[tag Win lions_bet]"
        "[tag Win tigers_bet]" "Some ''G1''" clock "Some G1" "Val [lions_bet]" None
        "Val [tigers_bet]" None "draft G1 ''30'' ''Lions'' (Fin 100)"]
    by blast
qed

section \<open>Assembling the bet list\<close>

lemma mset_insert_by: "mset (insert_by cmp x ys) = add_mset x (mset ys)"
  by (induction ys) auto

lemma mset_js_sort: "mset (js_sort cmp xs) = mset xs"
  by (induction xs) (simp_all add: js_sort_def mset_insert_by)

lemma set_insert_by: "set (insert_by cmp x ys) = insert x (set ys)"
  by (induction ys) auto

lemma set_js_sort: "set (js_sort cmp xs) = set xs"
  by (induction xs) (simp_all add: js_sort_def set_insert_by)

lemma compare_bets_pos:
  assumes "getTime (created_at a) = Some ta" "getTime (created_at b) = Some tb"
  shows "js_less (Fin 0) (compare_bets getTime a b) \<longleftrightarrow> ta < tb"
proof -
  have "compare_bets getTime a b = round64 (of_int tb - of_int ta)"
    using assms by (simp add: compare_bets_def time_of_def js_sub_def)
  also have "\<dots> = round64 (of_int (tb - ta))" by simp
  finally show ?thesis using round64_int_pos_iff[of "tb - ta"] by simp
qed

lemma sorted_insert_by:
  assumes "sorted_wrt (\<lambda>a b. t b < t a) ys"
    and "\<forall>y\<in>set ys. t y \<noteq> (t x :: int)"
    and "\<forall>y\<in>set ys. js_less (Fin 0) (cmp x y) \<longleftrightarrow> t x < t y"
  shows "sorted_wrt (\<lambda>a b. t b < t a) (insert_by cmp x ys)"
  using assms
proof (induction ys)
  case Nil
  then show ?case by simp
next
  case (Cons y ys)
  show ?case
  proof (cases "t x < t y")
    case True
    have "sorted_wrt (\<lambda>a b. t b < t a) (insert_by cmp x ys)"
      using Cons.prems by (intro Cons.IH) simp_all
    then show ?thesis using True Cons.prems by (auto simp: set_insert_by)
  next
    case False
    then have "t y < t x" using Cons.prems(2) by force
    then show ?thesis using False Cons.prems by (auto intro: less_trans)
  qed
qed

lemma sorted_js_sort:
  assumes "\<forall>b\<in>set xs. getTime (created_at b) = Some (t b)"
    and "distinct (map t xs)"
  shows "sorted_wrt (\<lambda>a b. t b < t a) (js_sort (compare_bets getTime) xs)"
  using assms
proof (induction xs)
  case Nil
  then show ?case by (simp add: js_sort_def)
next
  case (Cons x xs)
  have IH: "sorted_wrt (\<lambda>a b. t b < t a) (js_sort (compare_bets getTime) xs)"
    using Cons.prems by (intro Cons.IH) simp_all
  have "sorted_wrt (\<lambda>a b. t b < t a) (insert_by (compare_bets getTime) x (js_sort (compare_bets getTime) xs))"
  proof (rule sorted_insert_by[OF IH])
    show "\<forall>y\<in>set (js_sort (compare_bets getTime) xs). t y \<noteq> t x"
    proof
      fix y
      assume "y \<in> set (js_sort (compare_bets getTime) xs)"
      then have "t y \<in> t ` set xs" by (simp add: set_js_sort)
      moreover have "t x \<notin> t ` set xs" using Cons.prems(2) by simp
      ultimately show "t y \<noteq> t x" by metis
    qed
    show "\<forall>y\<in>set (js_sort (compare_bets getTime) xs).
            js_less (Fin 0) (compare_bets getTime x y) \<longleftrightarrow> t x < t y"
      using Cons.prems(1) by (auto simp: set_js_sort compare_bets_pos)
  qed
  then show ?case by (simp add: js_sort_def)
qed

lemma distinct_map_the:
  "distinct (map g zs) \<Longrightarrow> \<forall>z\<in>set zs. g z \<noteq> None \<Longrightarrow> distinct (map (\<lambda>z. the (g z)) zs)"
proof (induction zs)
  case Nil
  then show ?case by simp
next
  case (Cons z zs)
  have "the (g z) \<noteq> the (g y)" if "y \<in> set zs" for y
  proof
    assume "the (g z) = the (g y)"
    moreover have "g z \<noteq> None" "g y \<noteq> None" using Cons.prems(2) that by auto
    ultimately have "g z = g y" by (metis option.collapse)
    then show False using Cons.prems(1) that by auto
  qed
  then show ?case using Cons by auto
qed

lemma truncate_tag: "BetRow.truncate (tag t b) = b"
  by (simp add: BetRow.truncate_def tag_def)

text \<open>
  C6. The assembled sequence holds every row of both lists exactly once, each with the tag
  of its list: read back as pairs of a row and its \<^verbatim>\<open>type\<close>, its elements are the win rows
  paired with \<open>Win\<close> and the score rows paired with \<open>Score\<close>. When the creation timestamps
  are valid and pairwise distinct, it is strictly descending in time.
\<close>

theorem allBets_merged_sorted:
  assumes valid: "\<forall>b\<in>set (ws @ ss). getTime (created_at b) \<noteq> None"
    and dist: "distinct (map (\<lambda>b. getTime (created_at b)) (ws @ ss))"
  shows "mset (allBets getTime (Val ws) (Val ss)) = mset (map (tag Win) ws) + mset (map (tag Score) ss)
       \<and> mset (map (\<lambda>x. (BetRow.truncate x, type_bet x)) (allBets getTime (Val ws) (Val ss)))
           = mset (map (\<lambda>b. (b, Win)) ws) + mset (map (\<lambda>b. (b, Score)) ss)
       \<and> sorted_wrt (\<lambda>a b. js_less (time_of getTime (created_at b)) (time_of getTime (created_at a)))
           (allBets getTime (Val ws) (Val ss))"
proof -
  let ?xs = "map (tag Win) ws @ map (tag Score) ss"
  define t where "t = (\<lambda>b::MatchBet. the (getTime (created_at b)))"
  have v: "\<forall>b\<in>set ?xs. getTime (created_at b) = Some (t b)"
    using valid by (auto simp: t_def)
  have e: "map t ?xs = map (\<lambda>b. the (getTime (created_at b))) (ws @ ss)"
    by (simp add: t_def)
  have "distinct (map (\<lambda>b. the (getTime (created_at b))) (ws @ ss))"
    by (rule distinct_map_the[OF dist valid])
  then have d: "distinct (map t ?xs)" unfolding e .
  have s: "sorted_wrt (\<lambda>a b. t b < t a) (js_sort (compare_bets getTime) ?xs)"
    by (rule sorted_js_sort[OF v d])
  have "sorted_wrt (\<lambda>a b. js_less (time_of getTime (created_at b)) (time_of getTime (created_at a)))
          (js_sort (compare_bets getTime) ?xs)"
  proof (rule sorted_wrt_mono_rel[OF _ s])
    fix a b
    assume "a \<in> set (js_sort (compare_bets getTime) ?xs)" "b \<in> set (js_sort (compare_bets getTime) ?xs)"
      and "t b < t a"
    then show "js_less (time_of getTime (created_at b)) (time_of getTime (created_at a))"
      using v by (simp add: set_js_sort time_of_def del: set_append set_map)
  qed
  then have sorted: "sorted_wrt
      (\<lambda>a b. js_less (time_of getTime (created_at b)) (time_of getTime (created_at a)))
      (allBets getTime (Val ws) (Val ss))"
    by (simp add: allBets_def)
  have m: "mset (allBets getTime (Val ws) (Val ss)) = mset (map (tag Win) ws) + mset (map (tag Score) ss)"
    by (simp add: allBets_def mset_js_sort)
  have "mset (map (\<lambda>x. (BetRow.truncate x, type_bet x)) (allBets getTime (Val ws) (Val ss)))
      = image_mset (\<lambda>x. (BetRow.truncate x, type_bet x)) (mset (allBets getTime (Val ws) (Val ss)))"
    by simp
  also have "\<dots> = mset (map (\<lambda>b. (b, Win)) ws) + mset (map (\<lambda>b. (b, Score)) ss)"
    unfolding m by (simp add: truncate_tag image_mset.compositionality comp_def)
  finally have u: "mset (map (\<lambda>x. (BetRow.truncate x, type_bet x)) (allBets getTime (Val ws) (Val ss)))
      = mset (map (\<lambda>b. (b, Win)) ws) + mset (map (\<lambda>b. (b, Score)) ss)" .
  from m u sorted show ?thesis by blast
qed

text \<open>
  The win wager of 10:00 and the score wagers of 12:00 and 11:00: the sequence is the
  wager of 12:00 tagged \<open>Score\<close>, that of 11:00 tagged \<open>Score\<close>, that of 10:00 tagged \<open>Win\<close>.
\<close>

theorem allBets_merged_sorted_witness:
  "clock (created_at lions_bet) = Some 1714557600000
   \<and> clock (created_at tigers_bet) = Some 1714564800000
   \<and> clock (created_at bears_bet) = Some 1714561200000
   \<and> allBets clock (Val [lions_bet]) (Val [tigers_bet, bears_bet])
       = [\<lparr>id_bet = ''b2'', user_id = ''U1'', bet_amount = Val (Fin 20), status_bet = ''pending'',
           created_at = ''2024-05-01T12:00:00Z'', team_bet = Val ''Tigers'',
           predicted_percentage = Undefined, predicted_score = Undefined, user_name = ''Asha'',
           type_bet = Score\<rparr>,
          \<lparr>id_bet = ''b3'', user_id = ''U1'', bet_amount = Val (Fin 5), status_bet = ''pending'',
           created_at = ''2024-05-01T11:00:00Z'', team_bet = Val ''Bears'',
           predicted_percentage = Undefined, predicted_score = Undefined, user_name = ''Asha'',
           type_bet = Score\<rparr>,
          \<lparr>id_bet = ''b1'', user_id = ''U1'', bet_amount = Val (Fin 10), status_bet = ''pending'',
           created_at = ''2024-05-01T10:00:00Z'', team_bet = Val ''Lions'',
           predicted_percentage = Undefined, predicted_score = Undefined, user_name = ''Asha'',
           type_bet = Win\<rparr>]
   \<and> map type_bet (allBets clock (Val [lions_bet]) (Val [tigers_bet, bears_bet])) = [Score, Score, Win]
   \<and> map id_bet (allBets clock (Val [lions_bet]) (Val [tigers_bet, bears_bet])) = [''b2'', ''b3'', ''b1'']
   \<and> mset (allBets clock (Val [lions_bet]) (Val [tigers_bet, bears_bet]))
       = mset (map (tag Win) [lions_bet]) + mset (map (tag Score) [tigers_bet, bears_bet])
   \<and> mset (map (\<lambda>x. (BetRow.truncate x, type_bet x))
              (allBets clock (Val [lions_bet]) (Val [tigers_bet, bears_bet])))
       = mset (map (\<lambda>b. (b, Win)) [lions_bet]) + mset (map (\<lambda>b. (b, Score)) [tigers_bet, bears_bet])
   \<and> sorted_wrt (\<lambda>a b. js_less (time_of clock (created_at b)) (time_of clock (created_at a)))
        (allBets clock (Val [lions_bet]) (Val [tigers_bet, bears_bet]))"
proof -
  have t: "clock (created_at lions_bet) = Some 1714557600000"
    "clock (created_at tigers_bet) = Some 1714564800000"
    "clock (created_at bears_bet) = Some 1714561200000"
    by (simp_all add: lions_bet_def tigers_bet_def bears_bet_def row_def clock_def)
  have v: "\<forall>b\<in>set ([lions_bet] @ [tigers_bet, bears_bet]). clock (created_at b) \<noteq> None"
    by (simp add: t)
  have d: "distinct (map (\<lambda>b. clock (created_at b)) ([lions_bet] @ [tigers_bet, bears_bet]))"
    by (simp add: t)
  have e: "allBets clock (Val [lions_bet]) (Val [tigers_bet, bears_bet])
       = [tag Score tigers_bet, tag Score bears_bet, tag Win lions_bet]"
    by (simp add: allBets_def js_sort_def compare_bets_def time_of_def js_sub_def t)
  have r: "[tag Score tigers_bet, tag Score bears_bet, tag Win lions_bet]
       = [\<lparr>id_bet = ''b2'', user_id = ''U1'', bet_amount = Val (Fin 20), status_bet = ''pending'',
           created_at = ''2024-05-01T12:00:00Z'', team_bet = Val ''Tigers'',
           predicted_percentage = Undefined, predicted_score = Undefined, user_name = ''Asha'',
           type_bet = Score\<rparr>,
          \<lparr>id_bet = ''b3'', user_id = ''U1'', bet_amount = Val (Fin 5), status_bet = ''pending'',
           created_at = ''2024-05-01T11:00:00Z'', team_bet = Val ''Bears'',
           predicted_percentage = Undefined, predicted_score = Undefined, user_name = ''Asha'',
           type_bet = Score\<rparr>,
          \<lparr>id_bet = ''b1'', user_id = ''U1'', bet_amount = Val (Fin 10), status_bet = ''pending'',
           created_at = ''2024-05-01T10:00:00Z'', team_bet = Val ''Lions'',
           predicted_percentage = Undefined, predicted_score = Undefined, user_name = ''Asha'',
           type_bet = Win\<rparr>]"
    by (simp add: tag_def lions_bet_def tigers_bet_def bears_bet_def row_def)
  have ty: "map type_bet (allBets clock (Val [lions_bet]) (Val [tigers_bet, bears_bet]))
      = [Score, Score, Win]"
    unfolding e r by simp
  have ids: "map id_bet (allBets clock (Val [lions_bet]) (Val [tigers_bet, bears_bet]))
      = [''b2'', ''b3'', ''b1'']"
    unfolding e r by simp
  show ?thesis
    using t e[unfolded r] ty ids allBets_merged_sorted[OF v d] by blast
qed

section \<open>Submitting a wager\<close>

lemmas page_simps =
  placeBet_def placeBet_sync_def placeBet_resume_def rejected_def fetchMatchBets_def
  fetchUserBalance_def allBets_def js_sort_def volume_cards_def volume_def optional_def
  isNaN_def js_le_def js_gt_def

lemma js_less_trans_le: "js_le x y \<Longrightarrow> js_less y z \<Longrightarrow> js_less x z"
  by (cases x; cases y; cases z) (auto simp: js_le_def)

lemma js_less_pos_valid:
  assumes "js_less (Fin 0) a"
  shows "\<not> isNaN a" "\<not> js_le a (Fin 0)"
  using assms by (cases a; auto simp: isNaN_def js_le_def)+

lemma js_gt_irrefl: "\<not> js_gt x x"
  by (cases x) (auto simp: js_gt_def)

text \<open>The paths through the synchronous part, one lemma for each.\<close>

lemma placeBet_sync_guard:
  "user s = None \<or> game s = None \<Longrightarrow> placeBet_sync s = Done s"
  by (auto simp: placeBet_sync_def split: option.splits)

lemma placeBet_sync_not_live:
  assumes "user s = Some u" "game s = Some g" "status g \<noteq> ''live''"
  shows "placeBet_sync s = Done (s\<lparr>error := ''This game is not live.'', submitting := False\<rparr>)"
  using assms by (simp add: placeBet_sync_def rejected_def)

lemma placeBet_sync_invalid_amount:
  assumes "user s = Some u" "game s = Some g" "status g = ''live''"
    and "isNaN (parseFloat (betAmount s)) \<or> js_le (parseFloat (betAmount s)) (Fin 0)"
  shows "placeBet_sync s = Done (s\<lparr>error := ''Enter a valid amount'', submitting := False\<rparr>)"
  using assms by (simp add: placeBet_sync_def rejected_def Let_def)

lemma placeBet_sync_insufficient:
  assumes "user s = Some u" "game s = Some g" "status g = ''live''"
    and "\<not> isNaN (parseFloat (betAmount s))" "\<not> js_le (parseFloat (betAmount s)) (Fin 0)"
    and "js_gt (parseFloat (betAmount s)) (userBalance s)"
  shows "placeBet_sync s = Done (s\<lparr>error := ''Insufficient balance'', submitting := False\<rparr>)"
  using assms by (simp add: placeBet_sync_def rejected_def Let_def)

lemma placeBet_sync_no_team:
  assumes "user s = Some u" "game s = Some g" "status g = ''live''"
    and "\<not> isNaN (parseFloat (betAmount s))" "\<not> js_le (parseFloat (betAmount s)) (Fin 0)"
    and "\<not> js_gt (parseFloat (betAmount s)) (userBalance s)"
    and "type_game g = ''win''" "prediction s = ''''"
  shows "placeBet_sync s = Done (s\<lparr>error := ''Select a team'', submitting := False\<rparr>)"
  using assms by (simp add: placeBet_sync_def rejected_def Let_def)

lemma placeBet_sync_win:
  assumes "user s = Some u" "game s = Some g" "status g = ''live''"
    and "\<not> isNaN (parseFloat (betAmount s))" "\<not> js_le (parseFloat (betAmount s)) (Fin 0)"
    and "\<not> js_gt (parseFloat (betAmount s)) (userBalance s)"
    and "type_game g = ''win''" "prediction s \<noteq> ''''"
  shows "placeBet_sync s =
           Awaiting (s\<lparr>error := '''', submitting := True\<rparr>)
             (Insert_win_game_bets (id_user u) (id_game g) (prediction s) (Fin 50)
                (parseFloat (betAmount s)))"
  using assms by (simp add: placeBet_sync_def rejected_def Let_def)

lemma placeBet_sync_no_score:
  assumes "user s = Some u" "game s = Some g" "status g = ''live''"
    and "\<not> isNaN (parseFloat (betAmount s))" "\<not> js_le (parseFloat (betAmount s)) (Fin 0)"
    and "\<not> js_gt (parseFloat (betAmount s)) (userBalance s)"
    and "type_game g \<noteq> ''win''" "isNaN (parseInt (prediction s))"
  shows "placeBet_sync s = Done (s\<lparr>error := ''Select a valid score range'', submitting := False\<rparr>)"
  using assms by (simp add: placeBet_sync_def rejected_def Let_def)

lemma placeBet_sync_score:
  assumes "user s = Some u" "game s = Some g" "status g = ''live''"
    and "\<not> isNaN (parseFloat (betAmount s))" "\<not> js_le (parseFloat (betAmount s)) (Fin 0)"
    and "\<not> js_gt (parseFloat (betAmount s)) (userBalance s)"
    and "type_game g \<noteq> ''win''" "\<not> isNaN (parseInt (prediction s))"
  shows "placeBet_sync s =
           Awaiting (s\<lparr>error := '''', submitting := True\<rparr>)
             (Insert_score_prediction_bets (id_user u) (id_game g) (team g)
                (parseInt (prediction s)) (parseFloat (betAmount s)))"
  using assms by (simp add: placeBet_sync_def rejected_def Let_def)

text \<open>Every call takes one of these paths.\<close>

lemma placeBet_sync_cases:
  obtains (guard) "user s = None \<or> game s = None"
  | (not_live) u g where "user s = Some u" "game s = Some g" "status g \<noteq> ''live''"
  | (invalid_amount) u g where "user s = Some u" "game s = Some g" "status g = ''live''"
      "isNaN (parseFloat (betAmount s)) \<or> js_le (parseFloat (betAmount s)) (Fin 0)"
  | (insufficient) u g where "user s = Some u" "game s = Some g" "status g = ''live''"
      "\<not> isNaN (parseFloat (betAmount s))" "\<not> js_le (parseFloat (betAmount s)) (Fin 0)"
      "js_gt (parseFloat (betAmount s)) (userBalance s)"
  | (no_team) u g where "user s = Some u" "game s = Some g" "status g = ''live''"
      "\<not> isNaN (parseFloat (betAmount s))" "\<not> js_le (parseFloat (betAmount s)) (Fin 0)"
      "\<not> js_gt (parseFloat (betAmount s)) (userBalance s)"
      "type_game g = ''win''" "prediction s = ''''"
  | (win) u g where "user s = Some u" "game s = Some g" "status g = ''live''"
      "\<not> isNaN (parseFloat (betAmount s))" "\<not> js_le (parseFloat (betAmount s)) (Fin 0)"
      "\<not> js_gt (parseFloat (betAmount s)) (userBalance s)"
      "type_game g = ''win''" "prediction s \<noteq> ''''"
  | (no_score) u g where "user s = Some u" "game s = Some g" "status g = ''live''"
      "\<not> isNaN (parseFloat (betAmount s))" "\<not> js_le (parseFloat (betAmount s)) (Fin 0)"
      "\<not> js_gt (parseFloat (betAmount s)) (userBalance s)"
      "type_game g \<noteq> ''win''" "isNaN (parseInt (prediction s))"
  | (score) u g where "user s = Some u" "game s = Some g" "status g = ''live''"
      "\<not> isNaN (parseFloat (betAmount s))" "\<not> js_le (parseFloat (betAmount s)) (Fin 0)"
      "\<not> js_gt (parseFloat (betAmount s)) (userBalance s)"
      "type_game g \<noteq> ''win''" "\<not> isNaN (parseInt (prediction s))"
  by (cases "user s"; cases "game s") blast+

lemma placeBet_sync_Awaiting_D:
  assumes "placeBet_sync s = Awaiting s' w"
  shows "\<not> isNaN (parseFloat (betAmount s))"
    and "\<not> js_le (parseFloat (betAmount s)) (Fin 0)"
    and "\<not> js_gt (parseFloat (betAmount s)) (userBalance s)"
    and "s' = s\<lparr>error := '''', submitting := True\<rparr>"
proof -
  have "\<not> isNaN (parseFloat (betAmount s)) \<and> \<not> js_le (parseFloat (betAmount s)) (Fin 0)
      \<and> \<not> js_gt (parseFloat (betAmount s)) (userBalance s)
      \<and> s' = s\<lparr>error := '''', submitting := True\<rparr>"
  proof (cases s rule: placeBet_sync_cases)
    case guard
    then show ?thesis using assms placeBet_sync_guard[of s] by simp
  next
    case (not_live u g)
    then show ?thesis using assms placeBet_sync_not_live[of s u g] by simp
  next
    case (invalid_amount u g)
    then show ?thesis using assms placeBet_sync_invalid_amount[of s u g] by simp
  next
    case (insufficient u g)
    then show ?thesis using assms placeBet_sync_insufficient[of s u g] by simp
  next
    case (no_team u g)
    then show ?thesis using assms placeBet_sync_no_team[of s u g] by simp
  next
    case (win u g)
    then show ?thesis using assms placeBet_sync_win[of s u g] by simp
  next
    case (no_score u g)
    then show ?thesis using assms placeBet_sync_no_score[of s u g] by simp
  next
    case (score u g)
    then show ?thesis using assms placeBet_sync_score[of s u g] by simp
  qed
  then show "\<not> isNaN (parseFloat (betAmount s))"
    and "\<not> js_le (parseFloat (betAmount s)) (Fin 0)"
    and "\<not> js_gt (parseFloat (betAmount s)) (userBalance s)"
    and "s' = s\<lparr>error := '''', submitting := True\<rparr>"
    by simp_all
qed

lemma placeBet_sync_Done_D:
  assumes "placeBet_sync s = Done s'"
  shows "betAmount s' = betAmount s" "prediction s' = prediction s"
    "\<not> submitting s \<Longrightarrow> \<not> submitting s'"
proof -
  have "betAmount s' = betAmount s \<and> prediction s' = prediction s
      \<and> (\<not> submitting s \<longrightarrow> \<not> submitting s')"
  proof (cases s rule: placeBet_sync_cases)
    case guard
    then show ?thesis using assms placeBet_sync_guard[of s] by auto
  next
    case (not_live u g)
    then show ?thesis using assms placeBet_sync_not_live[of s u g] by auto
  next
    case (invalid_amount u g)
    then show ?thesis using assms placeBet_sync_invalid_amount[of s u g] by auto
  next
    case (insufficient u g)
    then show ?thesis using assms placeBet_sync_insufficient[of s u g] by auto
  next
    case (no_team u g)
    then show ?thesis using assms placeBet_sync_no_team[of s u g] by auto
  next
    case (win u g)
    then show ?thesis using assms placeBet_sync_win[of s u g] by simp
  next
    case (no_score u g)
    then show ?thesis using assms placeBet_sync_no_score[of s u g] by auto
  next
    case (score u g)
    then show ?thesis using assms placeBet_sync_score[of s u g] by simp
  qed
  then show "betAmount s' = betAmount s" "prediction s' = prediction s"
    "\<not> submitting s \<Longrightarrow> \<not> submitting s'"
    by simp_all
qed

lemma placeBet_Done: "placeBet_sync s = Done s' \<Longrightarrow> placeBet getTime s r = (s', [])"
  by (simp add: placeBet_def)

lemma placeBet_Awaiting:
  "placeBet_sync s = Awaiting s' w \<Longrightarrow>
     placeBet getTime s r = (placeBet_resume getTime (route_id s) (game s) (user s) r s', [w])"
  by (simp add: placeBet_def)

lemma placeBet_no_write:
  assumes "\<And>s' w. placeBet_sync s \<noteq> Awaiting s' w"
  shows "snd (placeBet getTime s r) = []"
  using assms by (cases "placeBet_sync s") (auto simp: placeBet_def)

lemma fetchMatchBets_frame:
  "submitting (fetchMatchBets getTime cid cgame rw rs s) = submitting s"
  "betAmount (fetchMatchBets getTime cid cgame rw rs s) = betAmount s"
  "prediction (fetchMatchBets getTime cid cgame rw rs s) = prediction s"
  "error (fetchMatchBets getTime cid cgame rw rs s) = error s"
  by (simp_all add: fetchMatchBets_def Let_def split: response.splits)

lemma fetchUserBalance_frame:
  assumes "fetchUserBalance cuser r s = Returns s'"
  shows "betAmount s' = betAmount s" "prediction s' = prediction s" "error s' = error s"
    "submitting s' = submitting s"
  using assms by (auto simp: fetchUserBalance_def Let_def split: if_splits response.splits)

lemma fetchGame_frame: "submitting (fetchGame r s) = submitting s"
  by (simp add: fetchGame_def split: response.splits)

lemma placeBet_resume_flag: "\<not> submitting (placeBet_resume getTime cid cgame cuser r s)"
  by (simp add: placeBet_resume_def Let_def split: response.splits outcome.splits)

lemma placeBet_resume_error:
  "error (placeBet_resume getTime cid cgame cuser r s) = error s
   \<or> error (placeBet_resume getTime cid cgame cuser r s) = ''Failed to place bet.''"
  by (auto simp: placeBet_resume_def Let_def fetchMatchBets_frame
      split: response.splits outcome.splits dest: fetchUserBalance_frame(3))

text \<open>
  C10. Without a signed-in user or without a loaded game \<^verbatim>\<open>placeBet\<close> changes nothing and
  issues no insert.
\<close>

theorem guard_noop:
  assumes "user s = None \<or> game s = None"
  shows "placeBet getTime s r = (s, [])"
  using placeBet_sync_guard[OF assms] by (rule placeBet_Done)

theorem guard_noop_witness:
  "user ((draft G1 ''30'' ''Lions'' (Fin 100))\<lparr>user := None\<rparr>) = None
   \<and> placeBet clock ((draft G1 ''30'' ''Lions'' (Fin 100))\<lparr>user := None\<rparr>) store_ok
       = ((draft G1 ''30'' ''Lions'' (Fin 100))\<lparr>user := None\<rparr>, [])
   \<and> game ((draft G1 ''30'' ''Lions'' (Fin 100))\<lparr>game := None, submitting := True\<rparr>) = None
   \<and> placeBet clock ((draft G1 ''30'' ''Lions'' (Fin 100))\<lparr>game := None, submitting := True\<rparr>) store_ok
       = ((draft G1 ''30'' ''Lions'' (Fin 100))\<lparr>game := None, submitting := True\<rparr>, [])"
proof -
  let ?s = "(draft G1 ''30'' ''Lions'' (Fin 100))\<lparr>user := None\<rparr>"
  let ?t = "(draft G1 ''30'' ''Lions'' (Fin 100))\<lparr>game := None, submitting := True\<rparr>"
  have u: "user ?s = None" by simp
  have g: "game ?t = None" by simp
  show ?thesis
    using u g guard_noop[of ?s clock store_ok, OF disjI1[OF u]]
      guard_noop[of ?t clock store_ok, OF disjI2[OF g]]
    by blast
qed

text \<open>
  C1. A game that is not live: no insert is issued, and the submit of a signed-in user is
  rejected with \<^verbatim>\<open>This game is not live.\<close>, whatever the amount, the prediction and the
  balance: the test of the status comes before every other check.
\<close>

theorem not_live_rejected:
  assumes "game s = Some g" "status g \<noteq> ''live''"
  shows "snd (placeBet getTime s r) = []
       \<and> (user s \<noteq> None \<longrightarrow>
            placeBet getTime s r = (s\<lparr>error := ''This game is not live.'', submitting := False\<rparr>, []))"
proof
  show "snd (placeBet getTime s r) = []"
  proof (cases "user s")
    case None
    then show ?thesis using placeBet_sync_guard[of s] by (simp add: placeBet_Done)
  next
    case (Some u)
    then show ?thesis using placeBet_sync_not_live[OF Some assms] by (simp add: placeBet_Done)
  qed
  show "user s \<noteq> None \<longrightarrow>
      placeBet getTime s r = (s\<lparr>error := ''This game is not live.'', submitting := False\<rparr>, [])"
  proof
    assume "user s \<noteq> None"
    then obtain u where "user s = Some u" by auto
    then show "placeBet getTime s r = (s\<lparr>error := ''This game is not live.'', submitting := False\<rparr>, [])"
      using placeBet_sync_not_live[OF _ assms] by (simp add: placeBet_Done)
  qed
qed

theorem not_live_rejected_witness:
  "game (draft (G1\<lparr>status := ''completed''\<rparr>) ''30'' ''Lions'' (Fin 100)) = Some (G1\<lparr>status := ''completed''\<rparr>)
   \<and> status (G1\<lparr>status := ''completed''\<rparr>) \<noteq> ''live''
   \<and> user (draft (G1\<lparr>status := ''completed''\<rparr>) ''30'' ''Lions'' (Fin 100)) \<noteq> None
   \<and> placeBet clock (draft (G1\<lparr>status := ''completed''\<rparr>) ''30'' ''Lions'' (Fin 100)) store_ok
       = ((draft (G1\<lparr>status := ''completed''\<rparr>) ''30'' ''Lions'' (Fin 100))
            \<lparr>error := ''This game is not live.'', submitting := False\<rparr>, [])"
proof -
  let ?g = "G1\<lparr>status := ''completed''\<rparr>"
  let ?s = "draft ?g ''30'' ''Lions'' (Fin 100)"
  have g: "game ?s = Some ?g" by (simp add: draft_def)
  have l: "status ?g \<noteq> ''live''" by simp
  have u: "user ?s \<noteq> None" by (simp add: draft_def)
  show ?thesis using g l u not_live_rejected[OF g l, of clock store_ok] by blast
qed

text \<open>
  C2. An amount that does not parse, or parses to a value that is not above zero: no
  insert is issued, and on a live game with a signed-in user the submit ends with
  \<^verbatim>\<open>Enter a valid amount\<close>, before the balance and the selection are looked at.
\<close>

theorem invalid_amount_rejected:
  assumes "isNaN (parseFloat (betAmount s)) \<or> js_le (parseFloat (betAmount s)) (Fin 0)"
  shows "snd (placeBet getTime s r) = []
       \<and> (user s \<noteq> None \<and> (\<exists>g. game s = Some g \<and> status g = ''live'') \<longrightarrow>
            fst (placeBet getTime s r) = s\<lparr>error := ''Enter a valid amount'', submitting := False\<rparr>)"
proof
  show "snd (placeBet getTime s r) = []"
    using assms by (intro placeBet_no_write notI) (auto dest: placeBet_sync_Awaiting_D(1,2))
  show "user s \<noteq> None \<and> (\<exists>g. game s = Some g \<and> status g = ''live'') \<longrightarrow>
            fst (placeBet getTime s r) = s\<lparr>error := ''Enter a valid amount'', submitting := False\<rparr>"
  proof
    assume "user s \<noteq> None \<and> (\<exists>g. game s = Some g \<and> status g = ''live'')"
    then obtain u g where "user s = Some u" "game s = Some g" "status g = ''live''" by auto
    then have "placeBet_sync s = Done (s\<lparr>error := ''Enter a valid amount'', submitting := False\<rparr>)"
      using assms by (rule placeBet_sync_invalid_amount)
    then show "fst (placeBet getTime s r) = s\<lparr>error := ''Enter a valid amount'', submitting := False\<rparr>"
      by (simp add: placeBet_Done)
  qed
qed

theorem invalid_amount_rejected_witness:
  "isNaN (parseFloat (betAmount (draft G1 ''abc'' ''Lions'' (Fin 100))))
   \<and> js_le (parseFloat (betAmount (draft G1 ''-5'' ''Lions'' (Fin 100)))) (Fin 0)
   \<and> user (draft G1 ''abc'' ''Lions'' (Fin 100)) \<noteq> None
   \<and> (\<exists>g. game (draft G1 ''abc'' ''Lions'' (Fin 100)) = Some g \<and> status g = ''live'')
   \<and> snd (placeBet clock (draft G1 ''abc'' ''Lions'' (Fin 100)) store_ok) = []
   \<and> fst (placeBet clock (draft G1 ''abc'' ''Lions'' (Fin 100)) store_ok)
       = (draft G1 ''abc'' ''Lions'' (Fin 100))\<lparr>error := ''Enter a valid amount'', submitting := False\<rparr>
   \<and> snd (placeBet clock (draft G1 ''-5'' ''Lions'' (Fin 100)) store_ok) = []"
proof -
  let ?s = "draft G1 ''abc'' ''Lions'' (Fin 100)"
  let ?t = "draft G1 ''-5'' ''Lions'' (Fin 100)"
  have n: "isNaN (parseFloat (betAmount ?s))" by (simp add: draft_def parse_simps isNaN_def)
  have m: "js_le (parseFloat (betAmount ?t)) (Fin 0)" by (simp add: draft_def parse_simps js_le_def)
  have u: "user ?s \<noteq> None" by (simp add: draft_def)
  have g: "\<exists>g. game ?s = Some g \<and> status g = ''live''" by (simp add: draft_def G1_def)
  show ?thesis
    using n m u g
      invalid_amount_rejected[of ?s clock store_ok, OF disjI1[OF n]]
      invalid_amount_rejected[of ?t clock store_ok, OF disjI2[OF m]]
    by blast
qed

text \<open>
  C3. An amount above the balance: no insert is issued, and on a live game with a
  signed-in user the submit ends with \<^verbatim>\<open>Insufficient balance\<close> (the amount being above
  zero, as it is when the balance is not negative). An amount equal to the balance
  passes this check: the wager of a win-type game with a team selected is written.
\<close>

theorem insufficient_balance_rejected:
  "(js_gt (parseFloat (betAmount s)) (userBalance s) \<longrightarrow> snd (placeBet getTime s r) = [])
   \<and> (js_gt (parseFloat (betAmount s)) (userBalance s)
        \<and> user s \<noteq> None \<and> (\<exists>g. game s = Some g \<and> status g = ''live'')
        \<and> (js_less (Fin 0) (parseFloat (betAmount s)) \<or> js_le (Fin 0) (userBalance s)) \<longrightarrow>
          fst (placeBet getTime s r) = s\<lparr>error := ''Insufficient balance'', submitting := False\<rparr>)
   \<and> (parseFloat (betAmount s) = userBalance s \<and> js_less (Fin 0) (userBalance s)
        \<and> user s = Some u \<and> game s = Some g \<and> status g = ''live'' \<longrightarrow>
          error (fst (placeBet getTime s r)) \<noteq> ''Insufficient balance''
          \<and> (type_game g = ''win'' \<and> prediction s \<noteq> '''' \<longrightarrow>
               snd (placeBet getTime s r) =
                 [Insert_win_game_bets (id_user u) (id_game g) (prediction s) (Fin 50) (userBalance s)]))"
proof -
  let ?a = "parseFloat (betAmount s)"
  have 1: "snd (placeBet getTime s r) = []" if "js_gt ?a (userBalance s)"
    using that by (intro placeBet_no_write notI) (auto dest: placeBet_sync_Awaiting_D(3))
  have 2: "fst (placeBet getTime s r) = s\<lparr>error := ''Insufficient balance'', submitting := False\<rparr>"
    if h: "js_gt ?a (userBalance s) \<and> user s \<noteq> None
      \<and> (\<exists>g. game s = Some g \<and> status g = ''live'')
      \<and> (js_less (Fin 0) ?a \<or> js_le (Fin 0) (userBalance s))"
  proof -
    from h obtain u' g' where ug: "user s = Some u'" "game s = Some g'" "status g' = ''live''"
      by auto
    from h have pos: "js_less (Fin 0) ?a"
      by (auto simp: js_gt_def intro: js_less_trans_le)
    have "placeBet_sync s = Done (s\<lparr>error := ''Insufficient balance'', submitting := False\<rparr>)"
      using ug js_less_pos_valid[OF pos] h by (intro placeBet_sync_insufficient) simp_all
    then show ?thesis by (simp add: placeBet_Done)
  qed
  have 3: "error (fst (placeBet getTime s r)) \<noteq> ''Insufficient balance''
        \<and> (type_game g = ''win'' \<and> prediction s \<noteq> '''' \<longrightarrow>
             snd (placeBet getTime s r) =
               [Insert_win_game_bets (id_user u) (id_game g) (prediction s) (Fin 50) (userBalance s)])"
    if h: "?a = userBalance s \<and> js_less (Fin 0) (userBalance s)
      \<and> user s = Some u \<and> game s = Some g \<and> status g = ''live''"
  proof -
    from h have ug: "user s = Some u" "game s = Some g" "status g = ''live''" by simp_all
    from h have pos: "js_less (Fin 0) ?a" by simp
    note ok = js_less_pos_valid[OF pos]
    from h have eq: "\<not> js_gt ?a (userBalance s)" by (simp add: js_gt_irrefl)
    have "error (fst (placeBet getTime s r)) \<noteq> ''Insufficient balance''"
    proof (cases "placeBet_sync s")
      case (Done s')
      have "error s' = ''Select a team'' \<or> error s' = ''Select a valid score range''"
      proof (cases "type_game g = ''win''")
        case True
        then have "prediction s = ''''"
          using placeBet_sync_win[OF ug ok eq True] Done by auto
        then show ?thesis using placeBet_sync_no_team[OF ug ok eq True] Done by simp
      next
        case False
        then have "isNaN (parseInt (prediction s))"
          using placeBet_sync_score[OF ug ok eq False] Done by auto
        then show ?thesis using placeBet_sync_no_score[OF ug ok eq False] Done by simp
      qed
      then show ?thesis using Done by (auto simp: placeBet_Done)
    next
      case (Awaiting s' w)
      then have "error s' = ''''" using placeBet_sync_Awaiting_D(4)[OF Awaiting] by simp
      then show ?thesis
        using placeBet_resume_error[of getTime "route_id s" "game s" "user s" r s']
        by (auto simp: placeBet_Awaiting[OF Awaiting])
    qed
    moreover have "snd (placeBet getTime s r) =
        [Insert_win_game_bets (id_user u) (id_game g) (prediction s) (Fin 50) (userBalance s)]"
      if "type_game g = ''win'' \<and> prediction s \<noteq> ''''"
      using placeBet_sync_win[OF ug ok eq] that h by (simp add: placeBet_def)
    ultimately show ?thesis by blast
  qed
  from 1 2 3 show ?thesis by blast
qed

theorem insufficient_balance_rejected_witness:
  "js_gt (parseFloat (betAmount (draft G1 ''150'' ''Lions'' (Fin 100))))
         (userBalance (draft G1 ''150'' ''Lions'' (Fin 100)))
   \<and> user (draft G1 ''150'' ''Lions'' (Fin 100)) \<noteq> None
   \<and> (\<exists>g. game (draft G1 ''150'' ''Lions'' (Fin 100)) = Some g \<and> status g = ''live'')
   \<and> js_le (Fin 0) (userBalance (draft G1 ''150'' ''Lions'' (Fin 100)))
   \<and> snd (placeBet clock (draft G1 ''150'' ''Lions'' (Fin 100)) store_ok) = []
   \<and> fst (placeBet clock (draft G1 ''150'' ''Lions'' (Fin 100)) store_ok)
       = (draft G1 ''150'' ''Lions'' (Fin 100))\<lparr>error := ''Insufficient balance'', submitting := False\<rparr>
   \<and> parseFloat (betAmount (draft G1 ''100'' ''Lions'' (Fin 100)))
       = userBalance (draft G1 ''100'' ''Lions'' (Fin 100))
   \<and> js_less (Fin 0) (userBalance (draft G1 ''100'' ''Lions'' (Fin 100)))
   \<and> user (draft G1 ''100'' ''Lions'' (Fin 100)) = Some \<lparr>id_user = ''U1''\<rparr>
   \<and> game (draft G1 ''100'' ''Lions'' (Fin 100)) = Some G1 \<and> status G1 = ''live''
   \<and> type_game G1 = ''win'' \<and> prediction (draft G1 ''100'' ''Lions'' (Fin 100)) \<noteq> ''''
   \<and> error (fst (placeBet clock (draft G1 ''100'' ''Lions'' (Fin 100)) store_ok))
       \<noteq> ''Insufficient balance''
   \<and> snd (placeBet clock (draft G1 ''100'' ''Lions'' (Fin 100)) store_ok)
       = [Insert_win_game_bets ''U1'' ''G1'' ''Lions'' (Fin 50) (Fin 100)]"
proof -
  let ?s = "draft G1 ''150'' ''Lions'' (Fin 100)"
  let ?t = "draft G1 ''100'' ''Lions'' (Fin 100)"
  have s1: "js_gt (parseFloat (betAmount ?s)) (userBalance ?s)"
    by (simp add: draft_def parse_simps js_gt_def)
  have s2: "user ?s \<noteq> None" by (simp add: draft_def)
  have s3: "\<exists>g. game ?s = Some g \<and> status g = ''live''" by (simp add: draft_def G1_def)
  have s4: "js_le (Fin 0) (userBalance ?s)" by (simp add: draft_def js_le_def)
  have t1: "parseFloat (betAmount ?t) = userBalance ?t" by (simp add: draft_def parse_simps)
  have t2: "js_less (Fin 0) (userBalance ?t)" by (simp add: draft_def)
  have t3: "user ?t = Some \<lparr>id_user = ''U1''\<rparr>" by (simp add: draft_def)
  have t4: "game ?t = Some G1" by (simp add: draft_def)
  have t5: "status G1 = ''live''" "type_game G1 = ''win''" by (simp_all add: G1_def)
  have t6: "prediction ?t \<noteq> ''''" by (simp add: draft_def)
  have ids: "id_user \<lparr>id_user = ''U1''\<rparr> = ''U1''" "id_game G1 = ''G1''"
    "prediction ?t = ''Lions''" "userBalance ?t = Fin 100"
    by (simp_all add: G1_def draft_def)
  show ?thesis
    using s1 s2 s3 s4 t1 t2 t3 t4 t5 t6
      insufficient_balance_rejected[of ?s clock store_ok]
      insufficient_balance_rejected[of ?t clock store_ok "\<lparr>id_user = ''U1''\<rparr>" G1]
    unfolding ids by blast
qed

text \<open>
  C4. On a score-type game the selection is only checked for being a number: a
  prediction that does not parse as an integer is rejected with
  \<^verbatim>\<open>Select a valid score range\<close>; one that parses is written, whatever its value.
\<close>

theorem score_selection_nan_only:
  assumes "user s = Some u" "game s = Some g" "status g = ''live''" "type_game g \<noteq> ''win''"
    and "js_less (Fin 0) (parseFloat (betAmount s))"
    and "\<not> js_gt (parseFloat (betAmount s)) (userBalance s)"
  shows "(isNaN (parseInt (prediction s)) \<longrightarrow>
            placeBet getTime s r = (s\<lparr>error := ''Select a valid score range'', submitting := False\<rparr>, []))
       \<and> (\<not> isNaN (parseInt (prediction s)) \<longrightarrow>
            snd (placeBet getTime s r) =
              [Insert_score_prediction_bets (id_user u) (id_game g) (team g)
                 (parseInt (prediction s)) (parseFloat (betAmount s))])"
proof -
  note ok = js_less_pos_valid[OF assms(5)]
  have "placeBet getTime s r = (s\<lparr>error := ''Select a valid score range'', submitting := False\<rparr>, [])"
    if "isNaN (parseInt (prediction s))"
    using placeBet_sync_no_score[OF assms(1-3) ok assms(6,4) that] by (rule placeBet_Done)
  moreover have "snd (placeBet getTime s r) =
      [Insert_score_prediction_bets (id_user u) (id_game g) (team g)
         (parseInt (prediction s)) (parseFloat (betAmount s))]"
    if "\<not> isNaN (parseInt (prediction s))"
    using placeBet_sync_score[OF assms(1-3) ok assms(6,4) that] by (simp add: placeBet_def)
  ultimately show ?thesis by blast
qed

theorem score_selection_nan_only_witness:
  "user (draft G2 ''10'' ''abc'' (Fin 100)) = Some \<lparr>id_user = ''U1''\<rparr>
   \<and> game (draft G2 ''10'' ''abc'' (Fin 100)) = Some G2
   \<and> status G2 = ''live'' \<and> type_game G2 \<noteq> ''win''
   \<and> js_less (Fin 0) (parseFloat (betAmount (draft G2 ''10'' ''abc'' (Fin 100))))
   \<and> \<not> js_gt (parseFloat (betAmount (draft G2 ''10'' ''abc'' (Fin 100))))
            (userBalance (draft G2 ''10'' ''abc'' (Fin 100)))
   \<and> isNaN (parseInt (prediction (draft G2 ''10'' ''abc'' (Fin 100))))
   \<and> placeBet clock (draft G2 ''10'' ''abc'' (Fin 100)) store_ok
       = ((draft G2 ''10'' ''abc'' (Fin 100))
            \<lparr>error := ''Select a valid score range'', submitting := False\<rparr>, [])"
proof -
  let ?s = "draft G2 ''10'' ''abc'' (Fin 100)"
  have u: "user ?s = Some \<lparr>id_user = ''U1''\<rparr>" by (simp add: draft_def)
  have g: "game ?s = Some G2" by (simp add: draft_def)
  have l: "status G2 = ''live''" by (simp add: G2_def)
  have t: "type_game G2 \<noteq> ''win''" by (simp add: G2_def)
  have a: "js_less (Fin 0) (parseFloat (betAmount ?s))" by (simp add: draft_def parse_simps)
  have b: "\<not> js_gt (parseFloat (betAmount ?s)) (userBalance ?s)"
    by (simp add: draft_def parse_simps js_gt_def)
  have n: "isNaN (parseInt (prediction ?s))" by (simp add: draft_def parse_simps isNaN_def)
  show ?thesis
    using u g l t a b n score_selection_nan_only[OF u g l t a b, of clock store_ok] by simp
qed

text \<open>
  The draft with amount 10 and bracket index 12 on the live score-type game: the index
  parses, the wager is written with \<^verbatim>\<open>predicted_score\<close> 12, and no message is set.
\<close>

theorem score_selection_out_of_range_written:
  "parseInt ''12'' = Fin 12
   \<and> snd (placeBet clock (draft G2 ''10'' ''12'' (Fin 100)) store_ok)
       = [Insert_score_prediction_bets ''U1'' ''G2'' (Val ''Lions'') (Fin 12) (Fin 10)]
   \<and> error (fst (placeBet clock (draft G2 ''10'' ''12'' (Fin 100)) store_ok)) = ''''"
  by (simp add: page_simps parse_simps draft_def G2_def store_ok_def)

text \<open>The eleven buttons set the predictions 1 to 11 and nothing else.\<close>

lemma range_button_in_table:
  assumes "idx < length scoreRanges"
  shows "parseInt (prediction (range_button idx s)) = Fin (of_nat (idx + 1))
       \<and> 1 \<le> idx + 1 \<and> idx + 1 \<le> 11"
proof -
  have "length scoreRanges = 11" by (simp add: scoreRanges_def)
  then have "idx < 11" using assms by simp
  then have "idx = 0 \<or> idx = 1 \<or> idx = 2 \<or> idx = 3 \<or> idx = 4 \<or> idx = 5 \<or> idx = 6
      \<or> idx = 7 \<or> idx = 8 \<or> idx = 9 \<or> idx = 10"
    by arith
  then show ?thesis
    by (elim disjE)
       (simp_all add: range_button_def toString.simps digit_char_def parse_simps)
qed

text \<open>A rejection keeps the draft; so does an insert whose promise rejects, with the message.\<close>

lemma placeBet_rejection_keeps_draft:
  assumes "placeBet_sync s = Done s'"
  shows "betAmount (fst (placeBet getTime s r)) = betAmount s"
    and "prediction (fst (placeBet getTime s r)) = prediction s"
    and "snd (placeBet getTime s r) = []"
  using placeBet_sync_Done_D(1,2)[OF assms] by (simp_all add: placeBet_Done[OF assms])

lemma placeBet_insert_thrown:
  assumes "placeBet_sync s = Awaiting s' w" "insert_response r = Rejected"
  shows "fst (placeBet getTime s r) = s\<lparr>error := ''Failed to place bet.'', submitting := False\<rparr>"
  using assms placeBet_sync_Awaiting_D(4)[OF assms(1)]
  by (simp add: placeBet_def placeBet_resume_def)

text \<open>
  C5. A failed submit is to keep the draft and set a message, the draft being cleared only
  after a successful write. The rejections do so, and so does an insert whose promise
  rejects (the two lemmas above). The code departs from this when the insert fulfils
  with an error object (the store refused the row): \<^verbatim>\<open>placeBet\<close> does not look at what the
  insert fulfils with, clears the draft and shows no message.
\<close>

theorem insert_error_ignored:
  "fst (placeBet clock (draft G1 ''30'' ''Lions'' (Fin 100))
         (store_ok\<lparr>insert_response := Fulfilled Null (Some ''permission denied'')\<rparr>))
     = (draft G1 ''30'' ''Lions'' (Fin 100))
         \<lparr>betAmount := '''', prediction := '''', error := '''', userBalance := Fin 70\<rparr>
   \<and> snd (placeBet clock (draft G1 ''30'' ''Lions'' (Fin 100))
         (store_ok\<lparr>insert_response := Fulfilled Null (Some ''permission denied'')\<rparr>))
     = [Insert_win_game_bets ''U1'' ''G1'' ''Lions'' (Fin 50) (Fin 30)]"
  by (simp add: page_simps parse_simps draft_def G1_def store_ok_def)

section \<open>One submit at a time\<close>

lemma submit_cases:
  obtains (disabled) "submitting (page c)" "step getTime c Submit = c"
  | (returned) s' where "\<not> submitting (page c)" "placeBet_sync (page c) = Done s'"
      "step getTime c Submit = c\<lparr>page := s'\<rparr>"
  | (awaiting) s' w where "\<not> submitting (page c)" "placeBet_sync (page c) = Awaiting s' w"
      "step getTime c Submit =
         c\<lparr>page := s',
           in_flight := in_flight c @
             [\<lparr>c_id = route_id (page c), c_game = game (page c), c_user = user (page c)\<rparr>],
           store := store c @ [w]\<rparr>"
proof (cases "submitting (page c)")
  case True
  then show ?thesis by (intro disabled) (simp_all add: step_def submit_disabled_def)
next
  case False
  show ?thesis
  proof (cases "placeBet_sync (page c)")
    case (Done s')
    then show ?thesis using False by (intro returned[of s']) (simp_all add: step_def submit_disabled_def)
  next
    case (Awaiting s' w)
    then show ?thesis
      using False by (intro awaiting[of s' w]) (simp_all add: step_def submit_disabled_def)
  qed
qed

lemma step_consistent:
  assumes "consistent c"
  shows "consistent (step getTime c ev)"
proof (cases ev)
  case Submit
  show ?thesis
  proof (cases c rule: submit_cases[where getTime = getTime])
    case disabled
    then show ?thesis using assms Submit by simp
  next
    case (returned s')
    then show ?thesis
      using assms Submit placeBet_sync_Done_D(3)[OF returned(2)] by (simp add: consistent_def)
  next
    case (awaiting s' w)
    then show ?thesis
      using assms Submit placeBet_sync_Awaiting_D(4)[OF awaiting(2)] by (simp add: consistent_def)
  qed
next
  case (Settle r)
  show ?thesis
  proof (cases "in_flight c")
    case Nil
    then show ?thesis using assms Settle by (simp add: step_def)
  next
    case (Cons k ks)
    then have "ks = []" using assms by (simp add: consistent_def)
    then show ?thesis
      using Settle Cons by (simp add: step_def consistent_def placeBet_resume_flag)
  qed
next
  case (SetBetAmount v)
  then show ?thesis using assms by (simp add: step_def consistent_def)
next
  case (SetPrediction v)
  then show ?thesis using assms by (simp add: step_def consistent_def)
next
  case (ClickRange idx)
  then show ?thesis using assms by (simp add: step_def consistent_def range_button_def)
next
  case (GameFetched r)
  then show ?thesis using assms by (simp add: step_def consistent_def fetchGame_frame)
next
  case (BalanceFetched cuser r)
  then show ?thesis
    using assms
    by (auto simp: step_def consistent_def split: outcome.splits dest: fetchUserBalance_frame(4))
next
  case (BetsFetched cid cgame rw rs)
  then show ?thesis using assms by (simp add: step_def consistent_def fetchMatchBets_frame)
qed

lemma run_consistent: "consistent c \<Longrightarrow> consistent (run getTime c evs)"
  unfolding run_def by (induction evs arbitrary: c) (simp_all add: step_consistent)

lemma run_append: "run getTime c (xs @ ys) = run getTime (run getTime c xs) ys"
  by (simp add: run_def)

text \<open>
  \<^verbatim>\<open>placeBet\<close> itself does not read the flag: called with the flag set it issues the
  same insert. Only the disabled button keeps a second call away.
\<close>

lemma placeBet_ignores_flag:
  "snd (placeBet getTime (s\<lparr>submitting := b\<rparr>) r) = snd (placeBet getTime s r)"
  by (simp add: placeBet_def placeBet_sync_def rejected_def Let_def split: option.splits)

lemma double_submit_store:
  "length (store (run getTime c [Submit, Submit])) \<le> Suc (length (store c))"
proof (cases c rule: submit_cases[where getTime = getTime])
  case disabled
  then show ?thesis by (simp add: run_def)
next
  case (returned s')
  let ?c1 = "c\<lparr>page := s'\<rparr>"
  have "length (store (step getTime ?c1 Submit)) \<le> Suc (length (store ?c1))"
    by (cases ?c1 rule: submit_cases[where getTime = getTime]) simp_all
  then show ?thesis using returned by (simp add: run_def)
next
  case (awaiting s' w)
  let ?c1 = "step getTime c Submit"
  have "submitting (page ?c1)"
    using awaiting placeBet_sync_Awaiting_D(4)[OF awaiting(2)] by simp
  then have "step getTime ?c1 Submit = ?c1" by (simp add: step_def submit_disabled_def)
  then show ?thesis using awaiting by (simp add: run_def)
qed

text \<open>
  C9. From a page with the flag clear and nothing in flight, whatever the user and the
  store do: at most one call of \<^verbatim>\<open>placeBet\<close> is in flight, the flag is set while one is,
  a submit while the flag is set changes nothing, and two submits in a row issue at
  most one insert.
\<close>

theorem single_submit_in_flight:
  assumes "in_flight c0 = []" "\<not> submitting (page c0)"
  shows "length (in_flight (run getTime c0 evs)) \<le> 1
       \<and> (in_flight (run getTime c0 evs) \<noteq> [] \<longrightarrow> submitting (page (run getTime c0 evs)))
       \<and> (submitting (page (run getTime c0 evs)) \<longrightarrow>
            step getTime (run getTime c0 evs) Submit = run getTime c0 evs)
       \<and> length (store (run getTime c0 (evs @ [Submit, Submit])))
            \<le> Suc (length (store (run getTime c0 evs)))"
proof -
  have "consistent c0" using assms by (simp add: consistent_def)
  then have c: "consistent (run getTime c0 evs)" by (rule run_consistent)
  have "length (in_flight (run getTime c0 evs)) \<le> 1"
    and "in_flight (run getTime c0 evs) \<noteq> [] \<longrightarrow> submitting (page (run getTime c0 evs))"
    using c by (auto simp: consistent_def)
  moreover have "submitting (page (run getTime c0 evs)) \<longrightarrow>
      step getTime (run getTime c0 evs) Submit = run getTime c0 evs"
    by (simp add: step_def submit_disabled_def)
  moreover have "length (store (run getTime c0 (evs @ [Submit, Submit])))
      \<le> Suc (length (store (run getTime c0 evs)))"
    unfolding run_append by (rule double_submit_store)
  ultimately show ?thesis by blast
qed

lemmas session_simps =
  session0_def draft_def G1_def run_def step_def submit_disabled_def placeBet_sync_def
  rejected_def isNaN_def js_le_def js_gt_def

theorem single_submit_in_flight_witness:
  "in_flight session0 = [] \<and> \<not> submitting (page session0)
   \<and> submitting (page (run clock session0 [Submit]))
   \<and> length (in_flight (run clock session0 [Submit])) \<le> 1
   \<and> step clock (run clock session0 [Submit]) Submit = run clock session0 [Submit]
   \<and> length (store (run clock session0 ([Submit] @ [Submit, Submit])))
        \<le> Suc (length (store (run clock session0 [Submit])))"
proof -
  have a: "in_flight session0 = []" by (simp add: session0_def)
  have b: "\<not> submitting (page session0)" by (simp add: session0_def draft_def)
  have f: "submitting (page (run clock session0 [Submit]))"
    by (simp add: session_simps parse_simps)
  show ?thesis
    using a b f single_submit_in_flight[OF a b, of clock "[Submit]"] by blast
qed

text \<open>Submitting the scenario draft twice before the store answers issues one insert.\<close>

lemma double_submit_one_insert:
  "store (run clock session0 [Submit, Submit]) =
     [Insert_win_game_bets ''U1'' ''G1'' ''Lions'' (Fin 50) (Fin 30)]"
  by (simp add: session_simps parse_simps)

end
